theory Spec2Isabelle
  imports Main "HOL-Library.Char_ord" "HOL-Library.List_Lexorder"
begin

section \<open>Planner viewer: the tabular core of main.py\<close>

text \<open>
  The program keeps each open plan in a \<^verbatim>\<open>PlannerViewer\<close>: a pandas frame \<^verbatim>\<open>df\<close>, the
  frame \<^verbatim>\<open>filtered_df\<close> currently shown, the filter and sort selections, the list of source
  files and the rows of the tree widget. This theory embeds the methods of main.py that
  read or change that state. Widgets, colours and window geometry are left out; a dialog
  the code shows is part of the outcome a method returns.

  Modelling of the library values:
  \<^item> a cell is a text, a number or a missing value (what \<^verbatim>\<open>pd.isna\<close> accepts). A number is
    held by its integer value; numbers that are not integers are outside the model;
  \<^item> a frame is its column labels and its rows in storage order, each row carrying its
    index label as \<^verbatim>\<open>iterrows\<close> yields it;
  \<^item> a character is a code point below 256; \<^verbatim>\<open>str.lower\<close>, \<^verbatim>\<open>str.strip\<close> and \<^verbatim>\<open>int\<close> are
    modelled on that range;
  \<^item> an exception is a value of type \<open>error\<close>;
  \<^item> what pandas, \<^verbatim>\<open>re\<close> and Tk decide by version, by column type or by their own parsing is
    not fixed here: it is read from a parameter of type \<open>library\<close> (below), so that every
    statement holds for each of them.
\<close>

subsection \<open>Strings\<close>

text \<open>\<^verbatim>\<open>str.lower\<close> on one character: the capital letters below 256 are A to Z and the
  code points 192 to 222 without the multiplication sign 215; each is 32 below its small
  letter.\<close>

definition lower_chr :: "char \<Rightarrow> char" where
  "lower_chr c =
     (let n = (of_char c :: nat)
      in if (65 \<le> n \<and> n \<le> 90) \<or> (192 \<le> n \<and> n \<le> 214) \<or> (216 \<le> n \<and> n \<le> 222)
         then char_of (n + 32) else c)"

definition lower :: "string \<Rightarrow> string" where
  "lower s = map lower_chr s"

definition isspace :: "char \<Rightarrow> bool" where
  "isspace c =
     (of_char c \<in> set [9, 10, 11, 12, 13, 28, 29, 30, 31, 32, 133, 160 :: nat])"

definition strip :: "string \<Rightarrow> string" where
  "strip s = rev (dropWhile isspace (rev (dropWhile isspace s)))"

text \<open>\<^verbatim>\<open>str(n)\<close> for an integer.\<close>

fun digits :: "nat \<Rightarrow> string" where
  "digits n =
     (if n < 10 then [char_of (48 + n)]
      else digits (n div 10) @ [char_of (48 + n mod 10)])"

declare digits.simps [simp del]

definition str_int :: "int \<Rightarrow> string" where
  "str_int i = (if i < 0 then CHR ''-'' # digits (nat (- i)) else digits (nat i))"

text \<open>
  \<^verbatim>\<open>int(s)\<close> for a string: surrounding whitespace is stripped, a sign may lead, the digits
  may be grouped by single underscores; anything else raises ValueError (\<open>None\<close>). The
  whitespace of \<^verbatim>\<open>int\<close> is narrower than that of \<^verbatim>\<open>str.strip\<close>: the separators 28 to 31 are
  refused.
\<close>

definition is_int_space :: "char \<Rightarrow> bool" where
  "is_int_space c = (of_char c \<in> set [9, 10, 11, 12, 13, 32, 133, 160 :: nat])"

definition int_strip :: "string \<Rightarrow> string" where
  "int_strip s = rev (dropWhile is_int_space (rev (dropWhile is_int_space s)))"

definition is_digit :: "char \<Rightarrow> bool" where
  "is_digit c = (CHR ''0'' \<le> c \<and> c \<le> CHR ''9'')"

definition digit_val :: "char \<Rightarrow> nat" where
  "digit_val c = of_char c - 48"

fun int_digits :: "nat \<Rightarrow> string \<Rightarrow> nat option" where
  "int_digits acc [] = Some acc"
| "int_digits acc [c] = (if is_digit c then Some (10 * acc + digit_val c) else None)"
| "int_digits acc (c # u # s) =
     (if \<not> is_digit c then None
      else if u = CHR ''_'' then
        (case s of [] \<Rightarrow> None
         | d # t \<Rightarrow> if is_digit d then int_digits (10 * acc + digit_val c) (d # t) else None)
      else int_digits (10 * acc + digit_val c) (u # s))"

definition py_int :: "string \<Rightarrow> int option" where
  "py_int s =
     (case int_strip s of
        [] \<Rightarrow> None
      | c # r \<Rightarrow>
          if c = CHR ''-'' then
            (if r = [] then None else map_option (\<lambda>n. - int n) (int_digits 0 r))
          else if c = CHR ''+'' then
            (if r = [] then None else map_option int (int_digits 0 r))
          else map_option int (int_digits 0 (c # r)))"

text \<open>Substring test: \<^verbatim>\<open>p in s\<close>.\<close>

fun is_prefix :: "string \<Rightarrow> string \<Rightarrow> bool" where
  "is_prefix [] s = True"
| "is_prefix (a # p) [] = False"
| "is_prefix (a # p) (b # s) = (a = b \<and> is_prefix p s)"

fun contains_str :: "string \<Rightarrow> string \<Rightarrow> bool" where
  "contains_str p [] = (p = [])"
| "contains_str p (c # s) = (is_prefix p (c # s) \<or> contains_str p s)"

definition is_meta :: "char \<Rightarrow> bool" where
  "is_meta c = (c \<in> set (''.^$*+?{}[]|()'' @ [CHR 0x5C]))"

text \<open>\<^verbatim>\<open>list(dict.fromkeys(xs))\<close>: the first occurrence of every element, in order.\<close>

fun fromkeys :: "'a list \<Rightarrow> 'a list" where
  "fromkeys [] = []"
| "fromkeys (x # xs) = x # fromkeys (filter (\<lambda>y. y \<noteq> x) xs)"

subsection \<open>Cells and frames\<close>

datatype cell = is_txt: Txt (txt_of: string) | is_number: Num (number_of: int) | Missing

datatype error =
  KeyError | ValueError | TypeError | AttributeError | ReError | LoadError | TclError

record frame =
  columns :: "string list"
  rows :: "(int \<times> cell list) list"

text \<open>The frames pandas builds: unique column labels here, and one cell per column in every row.\<close>

definition wf_frame :: "frame \<Rightarrow> bool" where
  "wf_frame d =
     (distinct (columns d) \<and> list_all (\<lambda>r. length (snd r) = length (columns d)) (rows d))"

definition index :: "frame \<Rightarrow> int list" where
  "index d = map fst (rows d)"

text \<open>The cell of a row under a column label.\<close>

definition cell_at :: "string list \<Rightarrow> cell list \<Rightarrow> string \<Rightarrow> cell" where
  "cell_at cols cs c = (case map_of (zip cols cs) c of Some x \<Rightarrow> x | None \<Rightarrow> Missing)"

definition isna :: "cell \<Rightarrow> bool" where
  "isna x = (x = Missing)"

subsection \<open>The library\<close>

text \<open>
  The decisions of pandas, \<^verbatim>\<open>re\<close> and Tk that the frame of the model does not determine:
  \<^item> \<open>re_special\<close>: \<^verbatim>\<open>re.compile\<close> on a pattern with a special character of regular
    expressions: \<open>None\<close> where it raises, the search predicate otherwise;
  \<^item> \<open>na_text\<close>: what \<^verbatim>\<open>astype(str)\<close> makes of a missing cell: its text (\<^verbatim>\<open>nan\<close> in pandas 1.x
    and 2.x), or \<open>None\<close> when the cell stays missing (pandas 3.x);
  \<^item> \<open>column_num_text\<close> and \<open>row_num_text\<close>: the text of a number of a column when a column,
    or a row, is converted to texts. pandas holds a number as an integer or as a float by
    the type of its column (a numeric column with a missing cell is a float column) and
    renders it accordingly (\<^verbatim>\<open>10\<close> or \<^verbatim>\<open>10.0\<close>);
  \<^item> \<open>at_accepts_text\<close>: whether \<^verbatim>\<open>.at\<close> stores a text in a column that holds no text: pandas
    1.x and 2.x convert the column, pandas 3.x raises TypeError when the column is numeric;
  \<^item> \<open>tk_column_index\<close>: whether Tk reads an identifier that is not one of the column names
    of a tree as the index of one of its columns.
\<close>

record library =
  re_special :: "string \<Rightarrow> (string \<Rightarrow> bool) option"
  na_text :: "string option"
  column_num_text :: "frame \<Rightarrow> string \<Rightarrow> int \<Rightarrow> string"
  row_num_text :: "frame \<Rightarrow> string \<Rightarrow> int \<Rightarrow> string"
  at_accepts_text :: "frame \<Rightarrow> string \<Rightarrow> bool"
  tk_column_index :: "string list \<Rightarrow> string \<Rightarrow> bool"

text \<open>
  \<^verbatim>\<open>Series.str.contains(query, na=False)\<close> compiles \<^verbatim>\<open>query\<close> as a regular expression
  (\<^verbatim>\<open>regex=True\<close> is the default) and searches each text for it. A pattern without any
  special character matches exactly the texts that contain it; for a pattern with a special
  character the library decides.
\<close>

definition re_compile :: "library \<Rightarrow> string \<Rightarrow> (string \<Rightarrow> bool) option" where
  "re_compile lib pat =
     (if list_ex is_meta pat then re_special lib pat else Some (contains_str pat))"

text \<open>\<^verbatim>\<open>astype(str)\<close> on the cell \<open>x\<close> of the column \<open>c\<close> of the frame \<open>d\<close>, column-wise
  (\<^verbatim>\<open>df[c].astype(str)\<close>) and row-wise (\<^verbatim>\<open>row.astype(str)\<close>); \<open>None\<close> is a cell that stays
  missing.\<close>

definition column_text :: "library \<Rightarrow> frame \<Rightarrow> string \<Rightarrow> cell \<Rightarrow> string option" where
  "column_text lib d c x =
     (case x of
        Txt s \<Rightarrow> Some s
      | Num n \<Rightarrow> Some (column_num_text lib d c n)
      | Missing \<Rightarrow> na_text lib)"

definition row_text :: "library \<Rightarrow> frame \<Rightarrow> string \<Rightarrow> cell \<Rightarrow> string option" where
  "row_text lib d c x =
     (case x of
        Txt s \<Rightarrow> Some s
      | Num n \<Rightarrow> Some (row_num_text lib d c n)
      | Missing \<Rightarrow> na_text lib)"

text \<open>\<^verbatim>\<open>.str.lower().str.contains(query, na=False)\<close> on one converted cell, \<open>m\<close> the compiled
  query: a cell that stayed missing does not match.\<close>

definition str_contains :: "(string \<Rightarrow> bool) \<Rightarrow> string option \<Rightarrow> bool" where
  "str_contains m t = (case t of None \<Rightarrow> False | Some s \<Rightarrow> m (lower s))"

subsection \<open>Frame operations\<close>

text \<open>\<^verbatim>\<open>df[c]\<close> followed by the \<^verbatim>\<open>.str\<close> accessor: KeyError for an unknown label; with a
  repeated label \<^verbatim>\<open>df[c]\<close> is a frame, which has no \<^verbatim>\<open>.str\<close>.\<close>

definition get_column :: "frame \<Rightarrow> string \<Rightarrow> error + cell list" where
  "get_column d c =
     (if c \<notin> set (columns d) then Inl KeyError
      else if count_list (columns d) c > 1 then Inl AttributeError
      else Inr (map (\<lambda>r. cell_at (columns d) (snd r) c) (rows d)))"

text \<open>\<^verbatim>\<open>reset_index(drop=True)\<close> and \<^verbatim>\<open>ignore_index=True\<close>: the labels become 0..N-1.\<close>

definition reset_index :: "frame \<Rightarrow> frame" where
  "reset_index d = d\<lparr>rows := zip (map int [0..<length (rows d)]) (map snd (rows d))\<rparr>"

text \<open>
  \<^verbatim>\<open>pd.concat([a, b], ignore_index=True)\<close>. Both call sites pass two frames with the same
  columns (the second is built or reindexed on the columns of the first), so the rows of
  \<open>b\<close> follow those of \<open>a\<close> under these columns.
\<close>

definition concat_ignore_index :: "frame \<Rightarrow> frame \<Rightarrow> frame" where
  "concat_ignore_index a b = reset_index \<lparr>columns = columns a, rows = rows a @ rows b\<rparr>"

text \<open>\<^verbatim>\<open>d.reindex(columns=cols, fill_value=fill)\<close>: pandas refuses a frame whose column
  labels repeat; a label of \<open>cols\<close> that the frame lacks is filled in every row.\<close>

definition reindex_columns :: "string list \<Rightarrow> cell \<Rightarrow> frame \<Rightarrow> error + frame" where
  "reindex_columns cols fill d =
     (if \<not> distinct (columns d) then Inl ValueError
      else Inr \<lparr>columns = cols,
                rows = map (\<lambda>r. (fst r,
                  map (\<lambda>c. case map_of (zip (columns d) (snd r)) c of
                              Some x \<Rightarrow> x | None \<Rightarrow> fill) cols)) (rows d)\<rparr>)"

text \<open>\<^verbatim>\<open>d.drop(index=labels)\<close>: KeyError when a label is not in the index.\<close>

definition drop_index :: "frame \<Rightarrow> int list \<Rightarrow> error + frame" where
  "drop_index d labels =
     (if list_ex (\<lambda>l. l \<notin> set (index d)) labels then Inl KeyError
      else Inr (d\<lparr>rows := filter (\<lambda>r. fst r \<notin> set labels) (rows d)\<rparr>))"

text \<open>\<^verbatim>\<open>d[c] = value\<close> for a label the frame lacks: a new last column, the same cell in every row.\<close>

definition add_column :: "frame \<Rightarrow> string \<Rightarrow> cell \<Rightarrow> frame" where
  "add_column d c x =
     \<lparr>columns = columns d @ [c], rows = map (\<lambda>r. (fst r, snd r @ [x])) (rows d)\<rparr>"

text \<open>\<^verbatim>\<open>d.at[idx, c] = x\<close> for a text \<open>x\<close> (the only call stores \<^verbatim>\<open>'Completed'\<close>). A column
  that holds a text takes it; for a column without any text the library decides, and a
  refusal is the TypeError of pandas 3.x on a numeric column.\<close>

definition column_has_text :: "frame \<Rightarrow> string \<Rightarrow> bool" where
  "column_has_text d c = list_ex (\<lambda>r. is_txt (cell_at (columns d) (snd r) c)) (rows d)"

definition set_at :: "library \<Rightarrow> frame \<Rightarrow> int \<Rightarrow> string \<Rightarrow> cell \<Rightarrow> error + frame" where
  "set_at lib d idx c x =
     (if column_has_text d c \<or> at_accepts_text lib d c then
        Inr (d\<lparr>rows := map (\<lambda>r. if fst r = idx
                          then (fst r, map (\<lambda>(k, y). if k = c then x else y) (zip (columns d) (snd r)))
                          else r) (rows d)\<rparr>)
      else Inl TypeError)"

text \<open>
  \<^verbatim>\<open>d.sort_values(by=c, ascending=asc, kind='mergesort')\<close>. pandas sorts the rows whose key
  is present with a stable sort on the cells themselves (texts by code points, integers by
  value) and puts the rows whose key is missing after them, in their stored order, for both
  directions (\<^verbatim>\<open>na_position='last'\<close> is the default). For the descending direction it
  reverses, sorts and reverses again, so equal keys keep their stored order. Comparing a text
  with an integer raises TypeError; a repeated label raises ValueError.
\<close>

definition stable_sort :: "bool \<Rightarrow> ('a \<Rightarrow> 'k::linorder) \<Rightarrow> 'a list \<Rightarrow> 'a list" where
  "stable_sort asc f xs = (if asc then sort_key f xs else rev (sort_key f (rev xs)))"

definition sort_values :: "frame \<Rightarrow> string \<Rightarrow> bool \<Rightarrow> error + frame" where
  "sort_values d c asc =
     (if c \<notin> set (columns d) then Inl KeyError
      else if count_list (columns d) c > 1 then Inl ValueError
      else
        let key = (\<lambda>r. cell_at (columns d) (snd r) c);
            nans = filter (\<lambda>r. isna (key r)) (rows d);
            vals = filter (\<lambda>r. \<not> isna (key r)) (rows d)
        in if list_all (\<lambda>r. is_txt (key r)) vals
           then Inr (d\<lparr>rows := stable_sort asc (\<lambda>r. txt_of (key r)) vals @ nans\<rparr>)
           else if list_all (\<lambda>r. is_number (key r)) vals
           then Inr (d\<lparr>rows := stable_sort asc (\<lambda>r. number_of (key r)) vals @ nans\<rparr>)
           else Inl TypeError)"

subsection \<open>PlannerViewer\<close>

text \<open>\<open>tree_columns\<close> are the columns the tree widget is created with (line 114); \<open>tree\<close>
  are its items: item id and values.\<close>

record viewer =
  title :: string
  df :: frame
  filtered_df :: frame
  active_column :: "string option"
  sort_col :: "string option"
  sort_asc :: bool
  source_files :: "string list"
  search_var :: string
  tree_columns :: "string list"
  tree :: "(string \<times> string list) list"

text \<open>What a method leaves behind besides the new state: nothing, a dialog, or an
  exception that leaves the method.\<close>

datatype outcome = Done | ShowInfo string | ShowError string error | Raised error

text \<open>Python's truth value of an optional column name: \<^verbatim>\<open>None\<close> and the empty string are false.\<close>

fun truthy :: "string option \<Rightarrow> bool" where
  "truthy None = False"
| "truthy (Some c) = (c \<noteq> [])"

text \<open>\<^verbatim>\<open>populate_tree\<close>, lines 141-156: the frame to show is the sorted one when a sort column
  is set, is a column of the frame and the sort succeeds, and the frame as it is otherwise.
  Every row becomes one tree item: its index label as item id, its cells as texts (\<^verbatim>\<open>str\<close>
  on the values of the row), a missing cell as the empty text.\<close>

definition df_to_show :: "viewer \<Rightarrow> frame \<Rightarrow> frame" where
  "df_to_show v d =
     (if truthy (sort_col v) \<and> the (sort_col v) \<in> set (columns d) then
        (case sort_values d (the (sort_col v)) (sort_asc v) of
           Inr s \<Rightarrow> s
         | Inl e \<Rightarrow> d)
      else d)"

definition display_str :: "library \<Rightarrow> frame \<Rightarrow> string \<Rightarrow> cell \<Rightarrow> string" where
  "display_str lib d c x =
     (if isna x then []
      else case x of Txt s \<Rightarrow> s | Num n \<Rightarrow> row_num_text lib d c n | Missing \<Rightarrow> [])"

definition tree_items :: "library \<Rightarrow> frame \<Rightarrow> (string \<times> string list) list" where
  "tree_items lib d =
     map (\<lambda>r. (str_int (fst r), map (\<lambda>(c, x). display_str lib d c x) (zip (columns d) (snd r))))
         (rows d)"

definition populate_tree :: "library \<Rightarrow> viewer \<Rightarrow> frame \<Rightarrow> viewer" where
  "populate_tree lib v d = v\<lparr>tree := tree_items lib (df_to_show v d)\<rparr>"

text \<open>
  \<^verbatim>\<open>on_search\<close>, lines 158-172. The query is the search text lower-cased, then stripped.
  \<open>visible_frame\<close> is the frame assigned to \<^verbatim>\<open>filtered_df\<close>, or the exception raised on the
  way. With an active column the mask is computed on that column; without one, on every
  cell of the row. In the second branch pandas takes its path for empty frames when the
  frame has no row or no column: the row function is tried once on an empty row and an
  exception in it is swallowed; on a frame without rows the result of a query that
  compiles selects no column.
\<close>

definition visible_frame :: "library \<Rightarrow> viewer \<Rightarrow> error + frame" where
  "visible_frame lib v =
     (let query = strip (lower (search_var v));
          d = df v
      in if query = [] then Inr d
         else if truthy (active_column v) then
           (case get_column d (the (active_column v)) of
              Inl e \<Rightarrow> Inl e
            | Inr cells \<Rightarrow>
                (case re_compile lib query of
                   None \<Rightarrow> Inl ReError
                 | Some m \<Rightarrow>
                     Inr (d\<lparr>rows := filter (\<lambda>r. str_contains m (column_text lib d (the (active_column v))
                           (cell_at (columns d) (snd r) (the (active_column v))))) (rows d)\<rparr>)))
         else if rows d = [] then
           (case re_compile lib query of
              None \<Rightarrow> Inr d
            | Some m \<Rightarrow> Inr (d\<lparr>columns := []\<rparr>))
         else if columns d = [] then
           (case re_compile lib query of
              None \<Rightarrow> Inr d
            | Some m \<Rightarrow> Inr (d\<lparr>rows := []\<rparr>))
         else
           (case re_compile lib query of
              None \<Rightarrow> Inl ReError
            | Some m \<Rightarrow>
                Inr (d\<lparr>rows := filter (\<lambda>r. list_ex (\<lambda>(c, x). str_contains m (row_text lib d c x))
                                                   (zip (columns d) (snd r)))
                                  (rows d)\<rparr>)))"

text \<open>
  After the assignment \<^verbatim>\<open>on_search\<close> fills the tree and then, in
  \<^verbatim>\<open>highlight_active_column\<close> (lines 185-193), sets the heading of every column of \<^verbatim>\<open>self.df\<close>.
  The tree has the columns it was created with: for a column of the frame that the tree
  lacks, \<^verbatim>\<open>tree.heading\<close> raises TclError unless Tk reads the name as a column index. The
  status line and the value list are display only.

  \<open>on_search\<close> is the result of the call: the viewer when it returns, the exception when
  it raises. \<open>after_search\<close> is the viewer that the call leaves behind in either case: an
  exception of the filter leaves it untouched, the TclError comes after the shown frame
  and the tree are set.
\<close>

definition heading_ok :: "library \<Rightarrow> viewer \<Rightarrow> bool" where
  "heading_ok lib v =
     list_all (\<lambda>c. c \<in> set (tree_columns v) \<or> tk_column_index lib (tree_columns v) c)
              (columns (df v))"

definition after_search :: "library \<Rightarrow> viewer \<Rightarrow> viewer" where
  "after_search lib v =
     (case visible_frame lib v of
        Inl e \<Rightarrow> v
      | Inr f \<Rightarrow> populate_tree lib (v\<lparr>filtered_df := f\<rparr>) f)"

definition on_search :: "library \<Rightarrow> viewer \<Rightarrow> error + viewer" where
  "on_search lib v =
     (case visible_frame lib v of
        Inl e \<Rightarrow> Inl e
      | Inr f \<Rightarrow>
          if heading_ok lib (populate_tree lib (v\<lparr>filtered_df := f\<rparr>) f)
          then Inr (populate_tree lib (v\<lparr>filtered_df := f\<rparr>) f)
          else Inl TclError)"

text \<open>\<^verbatim>\<open>PlannerViewer.__init__\<close>, lines 34-52, with \<^verbatim>\<open>create_widgets\<close> filling the tree
  from the whole frame.\<close>

definition new_viewer :: "library \<Rightarrow> frame \<Rightarrow> string \<Rightarrow> string list option \<Rightarrow> viewer" where
  "new_viewer lib d plan_name sources =
     populate_tree lib
       \<lparr>title = plan_name, df = d, filtered_df = d, active_column = None, sort_col = None,
        sort_asc = True,
        source_files = (case sources of None \<Rightarrow> [] | Some fs \<Rightarrow> fs),
        search_var = [], tree_columns = columns d, tree = []\<rparr> d"

text \<open>\<^verbatim>\<open>_on_add_task_confirm\<close>, lines 303-326: the dialog has one entry per column; the new
  row takes the entered text of each column. \<^verbatim>\<open>on_search\<close> is called outside any handler.\<close>

definition on_add_task_confirm :: "library \<Rightarrow> viewer \<Rightarrow> (string \<rightharpoonup> string) \<Rightarrow> viewer \<times> outcome" where
  "on_add_task_confirm lib v entries =
     (let new_df = \<lparr>columns = columns (df v),
                    rows = [(0, map (\<lambda>c. case entries c of Some s \<Rightarrow> Txt s | None \<Rightarrow> Missing)
                                    (columns (df v)))]\<rparr>;
          v1 = v\<lparr>df := reset_index (concat_ignore_index (df v) new_df)\<rparr>
      in case on_search lib v1 of
           Inl e \<Rightarrow> (after_search lib v1, Raised e)
         | Inr v2 \<Rightarrow> (v2, Done))"

text \<open>\<^verbatim>\<open>mark_selected_done\<close>, lines 379-411. \<open>selected_items\<close> is \<^verbatim>\<open>self.tree.selection()\<close>.\<close>

definition is_status_like :: "string \<Rightarrow> bool" where
  "is_status_like col = (lower col \<in> set [''status'', ''state'', ''progress''])"

definition mark_item :: "library \<Rightarrow> string \<Rightarrow> string \<Rightarrow> frame \<Rightarrow> error + frame" where
  "mark_item lib status_col item d =
     (case py_int item of
        None \<Rightarrow> Inr d
      | Some idx \<Rightarrow>
          if idx \<in> set (index d) then set_at lib d idx status_col (Txt ''Completed'') else Inr d)"

text \<open>The loop of lines 398-405: the frame it reaches, and the exception that ended it.\<close>

fun mark_items :: "library \<Rightarrow> string \<Rightarrow> string list \<Rightarrow> frame \<Rightarrow> frame \<times> error option" where
  "mark_items lib status_col [] d = (d, None)"
| "mark_items lib status_col (item # items) d =
     (case mark_item lib status_col item d of
        Inl e \<Rightarrow> (d, Some e)
      | Inr d' \<Rightarrow> mark_items lib status_col items d')"

definition mark_selected_done :: "library \<Rightarrow> viewer \<Rightarrow> string list \<Rightarrow> viewer \<times> outcome" where
  "mark_selected_done lib v selected_items =
     (if selected_items = [] then (v, ShowInfo ''No tasks selected'')
      else
        let found = find is_status_like (columns (df v));
            status_col = (case found of Some col \<Rightarrow> col | None \<Rightarrow> ''Status'');
            d1 = (case found of Some col \<Rightarrow> df v | None \<Rightarrow> add_column (df v) ''Status'' (Txt []));
            marked = mark_items lib status_col selected_items d1;
            v1 = v\<lparr>df := fst marked\<rparr>
        in case snd marked of
             Some e \<Rightarrow> (v1, ShowError ''Failed to mark task as done'' e)
           | None \<Rightarrow>
               (case on_search lib v1 of
                  Inl e \<Rightarrow> (after_search lib v1, ShowError ''Failed to mark task as done'' e)
                | Inr v2 \<Rightarrow> (v2, Done)))"

text \<open>\<^verbatim>\<open>delete_selected\<close>, lines 413-441. \<open>confirm\<close> is the answer to the confirmation
  dialog.\<close>

definition delete_selected :: "library \<Rightarrow> viewer \<Rightarrow> string list \<Rightarrow> bool \<Rightarrow> viewer \<times> outcome" where
  "delete_selected lib v selected_items confirm =
     (if selected_items = [] then (v, ShowInfo ''No tasks selected'')
      else if \<not> confirm then (v, Done)
      else
        let indices_to_delete = List.map_filter py_int selected_items
        in if indices_to_delete = [] then (v, Done)
           else
             (case drop_index (df v) indices_to_delete of
                Inl e \<Rightarrow> (v, ShowError ''Failed to delete task'' e)
              | Inr d \<Rightarrow>
                  let v1 = v\<lparr>df := reset_index d\<rparr>
                  in case on_search lib v1 of
                       Inl e \<Rightarrow> (after_search lib v1, ShowError ''Failed to delete task'' e)
                     | Inr v2 \<Rightarrow> (v2, Done)))"

subsection \<open>MainApp\<close>

text \<open>\<^verbatim>\<open>file_path.split("\\")[-1]\<close>: what follows the last backslash.\<close>

definition last_component :: "string \<Rightarrow> string" where
  "last_component s = rev (takeWhile (\<lambda>c. c \<noteq> CHR 0x5C) (rev s))"

text \<open>\<^verbatim>\<open>_merge_into_viewer\<close>, lines 656-671. \<open>merge_frames\<close> is the frame that lines 658-661
  compute from the frame of the viewer and the new frame. In the method the three
  assignments to \<^verbatim>\<open>viewer.df\<close> happen one after the other, so an exception leaves the viewer
  as the earlier ones made it; the source file is recorded after the refresh.\<close>

definition merge_frames :: "frame \<Rightarrow> frame \<Rightarrow> error + frame" where
  "merge_frames base incoming =
     (let union_cols = fromkeys (columns base @ columns incoming)
      in case reindex_columns union_cols (Txt []) base of
           Inl e \<Rightarrow> Inl e
         | Inr b \<Rightarrow>
             (case reindex_columns union_cols (Txt []) incoming of
                Inl e \<Rightarrow> Inl e
              | Inr n \<Rightarrow> Inr (concat_ignore_index b n)))"

definition merge_into_viewer :: "library \<Rightarrow> viewer \<Rightarrow> frame \<Rightarrow> string \<Rightarrow> viewer \<times> outcome" where
  "merge_into_viewer lib v new_df file_path =
     (let union_cols = fromkeys (columns (df v) @ columns new_df)
      in case reindex_columns union_cols (Txt []) (df v) of
           Inl e \<Rightarrow> (v, Raised e)
         | Inr b \<Rightarrow>
             let v1 = v\<lparr>df := b\<rparr>
             in case reindex_columns union_cols (Txt []) new_df of
                  Inl e \<Rightarrow> (v1, Raised e)
                | Inr n \<Rightarrow>
                    let v2 = v1\<lparr>df := concat_ignore_index b n\<rparr>
                    in case on_search lib v2 of
                         Inl e \<Rightarrow> (after_search lib v2, Raised e)
                       | Inr v3 \<Rightarrow>
                           (v3\<lparr>source_files :=
                                 (if file_path \<notin> set (source_files v3)
                                  then source_files v3 @ [file_path]
                                  else source_files v3)\<rparr>,
                            ShowInfo (''Imported and merged '' @ [CHR 0x27] @ last_component file_path
                                      @ [CHR 0x27] @ '' into '' @ [CHR 0x27] @ title v3
                                      @ [CHR 0x27] @ ''.'')))"

text \<open>The application state is the list of open viewers. \<^verbatim>\<open>_open_new_viewer\<close>, lines
  524-527; \<^verbatim>\<open>save_session\<close>, lines 530-542, as the list it writes.\<close>

record app =
  viewers :: "viewer list"

definition open_new_viewer :: "library \<Rightarrow> app \<Rightarrow> frame \<Rightarrow> string \<Rightarrow> string list option \<Rightarrow> app" where
  "open_new_viewer lib a d plan_name sources =
     a\<lparr>viewers := viewers a @ [new_viewer lib d plan_name sources]\<rparr>"

definition save_session :: "app \<Rightarrow> (string \<times> string list) list" where
  "save_session a = map (\<lambda>v. (title v, source_files v)) (viewers a)"

text \<open>
  \<^verbatim>\<open>load_session\<close>, lines 544-561, from the parsed session on. The loader \<^verbatim>\<open>load_excel\<close> and
  \<^verbatim>\<open>os.path.basename\<close> are parameters. The inner loop leaves at the first source that loads
  (\<^verbatim>\<open>break\<close>) and goes on to the next source when loading raises (\<^verbatim>\<open>continue\<close>).
\<close>

fun load_sources :: "library \<Rightarrow> (string \<Rightarrow> error + frame) \<Rightarrow> (string \<Rightarrow> string) \<Rightarrow> app \<Rightarrow> string list \<Rightarrow> app" where
  "load_sources lib load_excel basename a [] = a"
| "load_sources lib load_excel basename a (s # ss) =
     (case load_excel s of
        Inr d \<Rightarrow> open_new_viewer lib a d (basename s) None
      | Inl e \<Rightarrow> load_sources lib load_excel basename a ss)"

fun load_session :: "library \<Rightarrow> (string \<Rightarrow> error + frame) \<Rightarrow> (string \<Rightarrow> string) \<Rightarrow> app \<Rightarrow> (string \<times> string list) list \<Rightarrow> app" where
  "load_session lib load_excel basename a [] = a"
| "load_session lib load_excel basename a (item # session) =
     load_session lib load_excel basename (load_sources lib load_excel basename a (snd item)) session"

subsection \<open>Auxiliary notions for the statements\<close>

text \<open>Merging a sequence of files into one viewer, one \<^verbatim>\<open>_merge_into_viewer\<close> call after
  the other; the viewer stays open whatever a call leaves behind.\<close>

fun merge_all :: "library \<Rightarrow> viewer \<Rightarrow> (frame \<times> string) list \<Rightarrow> viewer" where
  "merge_all lib v [] = v"
| "merge_all lib v (m # ms) = merge_all lib (fst (merge_into_viewer lib v (fst m) (snd m))) ms"

text \<open>The cells of the rows of a frame laid out on the columns \<open>cols\<close>, an absent column
  filled with the empty text.\<close>

definition reindexed_rows :: "string list \<Rightarrow> frame \<Rightarrow> cell list list" where
  "reindexed_rows cols d =
     map (\<lambda>r. map (\<lambda>c. case map_of (zip (columns d) (snd r)) c of
                          Some x \<Rightarrow> x | None \<Rightarrow> Txt []) cols) (rows d)"

text \<open>
  Concrete inputs. \<open>ex_library\<close> decides as pandas 3.x does on frames as the loader returns
  them: a missing cell stays missing under \<^verbatim>\<open>astype(str)\<close>, and a column without any text is
  numeric and refuses a text. None of the inputs below has a pattern with a special
  character, a number beside a missing cell in one column, or a column name that Tk could
  read as an index: for these, \<open>ex_library\<close> refuses the pattern, renders the number as an
  integer and refuses the name.
\<close>

definition ex_library :: library where
  "ex_library =
     \<lparr>re_special = (\<lambda>pat. None), na_text = None,
      column_num_text = (\<lambda>d c n. str_int n), row_num_text = (\<lambda>d c n. str_int n),
      at_accepts_text = (\<lambda>d c. False), tk_column_index = (\<lambda>cols c. False)\<rparr>"

definition ex_base :: frame where
  "ex_base = \<lparr>columns = [''Task'', ''Due''],
              rows = [(0, [Txt ''write'', Txt ''mon'']), (1, [Txt ''test'', Missing])]\<rparr>"

definition ex_incoming :: frame where
  "ex_incoming = \<lparr>columns = [''Due'', ''Owner''], rows = [(0, [Txt ''tue'', Txt ''ann''])]\<rparr>"

definition ex_viewer :: viewer where
  "ex_viewer = new_viewer ex_library ex_base ''plan.xlsx'' (Some [''plan.xlsx''])"

text \<open>The integer labels that a selection names: the items \<^verbatim>\<open>int\<close> accepts.\<close>

definition selected_ids :: "string list \<Rightarrow> int list" where
  "selected_ids selected_items = List.map_filter py_int selected_items"

text \<open>The deletion as the specification words it: absent ids are ignored, the matching rows
  are removed, the remaining rows are renumbered 0..N-1 in their order.\<close>

definition spec_deleteRows :: "int set \<Rightarrow> frame \<Rightarrow> frame" where
  "spec_deleteRows ids d = reset_index (d\<lparr>rows := filter (\<lambda>r. fst r \<notin> ids) (rows d)\<rparr>)"

definition ex_five :: viewer where
  "ex_five = new_viewer ex_library
     \<lparr>columns = [''Task''],
      rows = [(0, [Txt ''a'']), (1, [Txt ''b'']), (2, [Txt ''c'']), (3, [Txt ''d'']), (4, [Txt ''e''])]\<rparr>
     ''five.xlsx'' (Some [''five.xlsx''])"

text \<open>A row after marking: the cell under the status column becomes \<^verbatim>\<open>Completed\<close> when the
  label of the row is one of \<open>T\<close>.\<close>

definition mark_row :: "string \<Rightarrow> string list \<Rightarrow> int set \<Rightarrow> int \<times> cell list \<Rightarrow> int \<times> cell list" where
  "mark_row c cols T r =
     (if fst r \<in> T
      then (fst r, map (\<lambda>(k, y). if k = c then Txt ''Completed'' else y) (zip cols (snd r)))
      else r)"

definition ex_tasks :: viewer where
  "ex_tasks = new_viewer ex_library
     \<lparr>columns = [''Task'', ''Priority''],
      rows = [(0, [Txt ''write'', Txt ''High'']), (1, [Txt ''test'', Txt ''Low''])]\<rparr>
     ''tasks.xlsx'' (Some [''tasks.xlsx''])"

definition ex_more :: frame where
  "ex_more = \<lparr>columns = [''Due'', ''Task''], rows = [(0, [Txt ''fri'', Txt ''ship''])]\<rparr>"

definition ex_blank_status :: viewer where
  "ex_blank_status = new_viewer ex_library
     \<lparr>columns = [''Task'', ''Status''],
      rows = [(0, [Txt ''write'', Missing]), (1, [Txt ''test'', Missing])]\<rparr>
     ''blank.xlsx'' (Some [''blank.xlsx''])"

definition ex_states :: viewer where
  "ex_states = new_viewer ex_library
     \<lparr>columns = [''Task'', ''STATE'', ''Status''],
      rows = [(0, [Txt ''write'', Txt ''open'', Missing]), (1, [Txt ''test'', Txt ''open'', Missing])]\<rparr>
     ''states.xlsx'' (Some [''states.xlsx''])"

text \<open>The filter as the specification words it: the stringified cell, a null as the empty
  text, case-folded, contains the case-folded search term; an empty term shows every row.\<close>

fun spec_stringify :: "cell \<Rightarrow> string" where
  "spec_stringify (Txt s) = s"
| "spec_stringify (Num n) = str_int n"
| "spec_stringify Missing = []"

definition spec_computeVisible :: "frame \<Rightarrow> string \<Rightarrow> string \<Rightarrow> int list" where
  "spec_computeVisible d searchTerm activeColumn =
     (if searchTerm = [] then index d
      else map fst (filter (\<lambda>r. contains_str (lower searchTerm)
                                  (lower (spec_stringify (cell_at (columns d) (snd r) activeColumn))))
                           (rows d)))"

definition ex_search :: viewer where
  "ex_search =
     (new_viewer ex_library \<lparr>columns = [''Task''], rows = [(0, [Txt ''Plan'']), (1, [Txt ''x''])]\<rparr>
        ''search.xlsx'' (Some [''search.xlsx'']))
     \<lparr>active_column := Some ''Task'', search_var := ''an ''\<rparr>"

text \<open>The display order as the specification words it: a stable sort on the stringified
  cell of the sort key, a null as the empty text, under the order of texts.\<close>

definition spec_computeOrder :: "frame \<Rightarrow> string \<Rightarrow> bool \<Rightarrow> int list" where
  "spec_computeOrder d sortKey ascending =
     map fst (stable_sort ascending
                (\<lambda>r. spec_stringify (cell_at (columns d) (snd r) sortKey)) (rows d))"

definition ex_sort :: viewer where
  "ex_sort =
     (new_viewer ex_library \<lparr>columns = [''Due''], rows = [(0, [Missing]), (1, [Txt ''b'']), (2, [Txt ''a''])]\<rparr>
        ''sort.xlsx'' (Some [''sort.xlsx'']))
     \<lparr>sort_col := Some ''Due'', sort_asc := True\<rparr>"

definition ex_sort_num :: viewer where
  "ex_sort_num =
     (new_viewer ex_library \<lparr>columns = [''Hours''], rows = [(0, [Num 10]), (1, [Num 9])]\<rparr>
        ''hours.xlsx'' (Some [''hours.xlsx'']))
     \<lparr>sort_col := Some ''Hours'', sort_asc := True\<rparr>"

text \<open>The cell a row is sorted by.\<close>

definition sort_cell :: "frame \<Rightarrow> string \<Rightarrow> int \<times> cell list \<Rightarrow> cell" where
  "sort_cell d c r = cell_at (columns d) (snd r) c"

definition ex_sort_mixed :: viewer where
  "ex_sort_mixed =
     (new_viewer ex_library \<lparr>columns = [''Ref''], rows = [(0, [Txt ''b'']), (1, [Num 3]), (2, [Txt ''a''])]\<rparr>
        ''refs.xlsx'' (Some [''refs.xlsx'']))
     \<lparr>sort_col := Some ''Ref'', sort_asc := True\<rparr>"

text \<open>The frames of the sources of an entry that load, in listed order.\<close>

definition loaded_frames :: "(string \<Rightarrow> error + frame) \<Rightarrow> string list \<Rightarrow> frame list" where
  "loaded_frames load_excel sources =
     List.map_filter (\<lambda>s. case load_excel s of Inr d \<Rightarrow> Some d | Inl e \<Rightarrow> None) sources"

text \<open>Restoring as the specification words it: an entry is rebuilt from its first source that
  loads, every later source that loads is merged into it in order, a source that fails is
  skipped; an entry without any loadable source gives no dataset.\<close>

definition spec_restore_entry :: "(string \<Rightarrow> error + frame) \<Rightarrow> string list \<Rightarrow> frame option" where
  "spec_restore_entry load_excel sources =
     (case loaded_frames load_excel sources of
        [] \<Rightarrow> None
      | d # ds \<Rightarrow>
          Some (fold (\<lambda>n acc. case merge_frames acc n of Inr m \<Rightarrow> m | Inl e \<Rightarrow> acc) ds d))"

definition spec_restore :: "(string \<Rightarrow> error + frame) \<Rightarrow> (string \<times> string list) list \<Rightarrow> frame list" where
  "spec_restore load_excel session =
     List.map_filter (\<lambda>item. spec_restore_entry load_excel (snd item)) session"

definition ex_loader :: "string \<Rightarrow> error + frame" where
  "ex_loader s =
     (if s = ''plan.xlsx'' then Inr ex_base
      else if s = ''team.xlsx'' then Inr ex_incoming
      else Inl LoadError)"

definition ex_session :: "(string \<times> string list) list" where
  "ex_session =
     [(''gone'', [''lost.xlsx'']),
      (''plan'', [''moved.xlsx'', ''plan.xlsx'', ''team.xlsx''])]"

section \<open>Properties\<close>

subsection \<open>The refresh keeps everything but the shown frame and the tree\<close>

lemma populate_tree_fields [simp]:
  "df (populate_tree lib v d) = df v"
  "filtered_df (populate_tree lib v d) = filtered_df v"
  "source_files (populate_tree lib v d) = source_files v"
  "active_column (populate_tree lib v d) = active_column v"
  "search_var (populate_tree lib v d) = search_var v"
  "sort_col (populate_tree lib v d) = sort_col v"
  "sort_asc (populate_tree lib v d) = sort_asc v"
  "title (populate_tree lib v d) = title v"
  "tree_columns (populate_tree lib v d) = tree_columns v"
  by (simp_all add: populate_tree_def)

lemma after_search_fields [simp]:
  "df (after_search lib v) = df v"
  "source_files (after_search lib v) = source_files v"
  "active_column (after_search lib v) = active_column v"
  "search_var (after_search lib v) = search_var v"
  "sort_col (after_search lib v) = sort_col v"
  "sort_asc (after_search lib v) = sort_asc v"
  "title (after_search lib v) = title v"
  "tree_columns (after_search lib v) = tree_columns v"
  by (simp_all add: after_search_def split: sum.splits)

lemma on_search_after:
  assumes "on_search lib v = Inr v'"
  shows "after_search lib v = v'"
  using assms by (auto simp: on_search_def after_search_def split: sum.splits if_splits)

lemma on_search_fields:
  assumes "on_search lib v = Inr v'"
  shows "df v' = df v" and "source_files v' = source_files v"
    and "active_column v' = active_column v" and "search_var v' = search_var v"
    and "sort_col v' = sort_col v" and "sort_asc v' = sort_asc v" and "title v' = title v"
  using on_search_after [OF assms] after_search_fields [of lib v] by auto

lemma on_search_filtered:
  assumes "on_search lib v = Inr v'"
  shows "visible_frame lib v = Inr (filtered_df v')"
  using assms by (auto simp: on_search_def split: sum.splits if_splits)

lemma visible_frame_cong:
  "df v = df w \<Longrightarrow> search_var v = search_var w \<Longrightarrow> active_column v = active_column w
   \<Longrightarrow> visible_frame lib v = visible_frame lib w"
  by (simp add: visible_frame_def Let_def cong del: sum.case_cong_weak option.case_cong_weak)

lemma populate_tree_idem:
  "populate_tree lib (populate_tree lib (v\<lparr>filtered_df := f\<rparr>) f\<lparr>filtered_df := f\<rparr>) f =
   populate_tree lib (v\<lparr>filtered_df := f\<rparr>) f"
  by (simp add: populate_tree_def df_to_show_def)

lemma visible_frame_after: "visible_frame lib (after_search lib v) = visible_frame lib v"
  by (rule visible_frame_cong) simp_all

lemma after_search_idem: "after_search lib (after_search lib v) = after_search lib v"
proof (cases "visible_frame lib v")
  case (Inl e)
  then show ?thesis by (simp add: after_search_def)
next
  case (Inr f)
  then have a: "after_search lib v = populate_tree lib (v\<lparr>filtered_df := f\<rparr>) f"
    by (simp add: after_search_def)
  have "visible_frame lib (after_search lib v) = Inr f"
    by (simp add: visible_frame_after Inr)
  then have "after_search lib (after_search lib v) =
      populate_tree lib (after_search lib v\<lparr>filtered_df := f\<rparr>) f"
    by (simp add: after_search_def)
  then show ?thesis by (simp add: a populate_tree_idem)
qed

lemma on_search_by_after:
  "on_search lib v =
     (case visible_frame lib v of
        Inl e \<Rightarrow> Inl e
      | Inr f \<Rightarrow> if heading_ok lib (after_search lib v) then Inr (after_search lib v)
                 else Inl TclError)"
  by (simp add: on_search_def after_search_def split: sum.splits)

lemma on_search_again: "on_search lib (after_search lib v) = on_search lib v"
  by (simp add: on_search_by_after [of lib "after_search lib v"] on_search_by_after [of lib v]
      visible_frame_after after_search_idem cong del: sum.case_cong_weak)

lemma on_search_idem:
  assumes "on_search lib v = Inr v'"
  shows "on_search lib v' = Inr v'"
  using on_search_again [of lib v] assms by (simp add: on_search_after [OF assms])

lemma on_search_failed_again:
  assumes "on_search lib v = Inl e"
  shows "on_search lib (after_search lib v) = Inl e"
  using on_search_again [of lib v] assms by simp

subsection \<open>Column union\<close>

lemma fromkeys_filter: "fromkeys (filter P xs) = filter P (fromkeys xs)"
proof (induction xs rule: fromkeys.induct)
  case 1
  show ?case by simp
next
  case (2 x xs)
  show ?case
  proof (cases "P x")
    case True
    then show ?thesis using 2 by (simp add: conj_commute)
  next
    case False
    have "filter P (filter (\<lambda>y. y \<noteq> x) xs) = filter P xs"
      using False by (auto intro: filter_cong)
    then show ?thesis using False 2 by simp
  qed
qed

lemma fromkeys_distinct_id: "distinct xs \<Longrightarrow> fromkeys xs = xs"
proof (induction xs)
  case Nil
  show ?case by simp
next
  case (Cons x xs)
  then have "filter (\<lambda>y. y \<noteq> x) xs = xs"
    by (auto intro: filter_True)
  with Cons show ?case by simp
qed

lemma fromkeys_append:
  "distinct xs \<Longrightarrow> fromkeys (xs @ ys) = xs @ filter (\<lambda>c. c \<notin> set xs) (fromkeys ys)"
proof (induction xs arbitrary: ys)
  case Nil
  show ?case by simp
next
  case (Cons x xs)
  then have keep: "filter (\<lambda>y. y \<noteq> x) xs = xs"
    by (auto intro: filter_True)
  have "fromkeys ((x # xs) @ ys) = x # fromkeys (xs @ filter (\<lambda>y. y \<noteq> x) ys)"
    by (simp add: keep)
  also have "\<dots> = x # xs @ filter (\<lambda>c. c \<notin> set xs) (fromkeys (filter (\<lambda>y. y \<noteq> x) ys))"
    using Cons by simp
  also have "\<dots> = (x # xs) @ filter (\<lambda>c. c \<notin> set (x # xs)) (fromkeys ys)"
    by (auto simp: fromkeys_filter intro: filter_cong)
  finally show ?case .
qed

lemma union_cols_eq:
  "distinct xs \<Longrightarrow> distinct ys \<Longrightarrow> fromkeys (xs @ ys) = xs @ filter (\<lambda>c. c \<notin> set xs) ys"
  by (simp add: fromkeys_append fromkeys_distinct_id)

subsection \<open>The frame after a merge\<close>

lemma reindex_columns_ok:
  "distinct (columns d) \<Longrightarrow>
     \<exists>b. reindex_columns cols (Txt []) d = Inr b \<and> columns b = cols
       \<and> map snd (rows b) = reindexed_rows cols d \<and> map fst (rows b) = map fst (rows d)"
  by (simp add: reindex_columns_def reindexed_rows_def comp_def)

lemma concat_ignore_index_rows:
  "rows (concat_ignore_index a b) =
     zip (map int [0..<length (rows a) + length (rows b)]) (map snd (rows a) @ map snd (rows b))"
  by (simp add: concat_ignore_index_def reset_index_def)

lemma concat_ignore_index_columns: "columns (concat_ignore_index a b) = columns a"
  by (simp add: concat_ignore_index_def reset_index_def)

lemma merge_into_viewer_df:
  assumes "distinct (columns (df v))" and "distinct (columns d)"
  shows "columns (df (fst (merge_into_viewer lib v d p))) = fromkeys (columns (df v) @ columns d)"
    and "rows (df (fst (merge_into_viewer lib v d p))) =
         zip (map int [0..<length (rows (df v)) + length (rows d)])
             (reindexed_rows (fromkeys (columns (df v) @ columns d)) (df v) @
              reindexed_rows (fromkeys (columns (df v) @ columns d)) d)"
proof -
  let ?u = "fromkeys (columns (df v) @ columns d)"
  obtain b where b: "reindex_columns ?u (Txt []) (df v) = Inr b" "columns b = ?u"
      "map snd (rows b) = reindexed_rows ?u (df v)" "map fst (rows b) = map fst (rows (df v))"
    using reindex_columns_ok [OF assms(1)] by blast
  obtain n where n: "reindex_columns ?u (Txt []) d = Inr n" "columns n = ?u"
      "map snd (rows n) = reindexed_rows ?u d" "map fst (rows n) = map fst (rows d)"
    using reindex_columns_ok [OF assms(2)] by blast
  have lb: "length (rows b) = length (rows (df v))" using b(4) by (metis length_map)
  have ln: "length (rows n) = length (rows d)" using n(4) by (metis length_map)
  let ?v2 = "v\<lparr>df := concat_ignore_index b n\<rparr>"
  have dfres: "df (fst (merge_into_viewer lib v d p)) = concat_ignore_index b n"
  proof (cases "on_search lib ?v2")
    case (Inl e)
    then show ?thesis by (simp add: merge_into_viewer_def Let_def b n)
  next
    case (Inr v3)
    then have "df v3 = concat_ignore_index b n" using on_search_fields(1) [OF Inr] by simp
    then show ?thesis using Inr by (simp add: merge_into_viewer_def Let_def b n)
  qed
  show "columns (df (fst (merge_into_viewer lib v d p))) = ?u"
    by (simp add: dfres concat_ignore_index_columns b)
  show "rows (df (fst (merge_into_viewer lib v d p))) =
         zip (map int [0..<length (rows (df v)) + length (rows d)])
             (reindexed_rows ?u (df v) @ reindexed_rows ?u d)"
    by (simp add: dfres concat_ignore_index_rows b n lb ln)
qed

lemma merge_into_viewer_sources:
  "source_files (fst (merge_into_viewer lib v d p)) = source_files v
   \<or> (p \<notin> set (source_files v)
      \<and> source_files (fst (merge_into_viewer lib v d p)) = source_files v @ [p])"
  by (auto simp: merge_into_viewer_def Let_def on_search_fields split: sum.splits)

lemma merge_into_viewer_distinct:
  "distinct (source_files v) \<Longrightarrow> distinct (source_files (fst (merge_into_viewer lib v d p)))"
  using merge_into_viewer_sources [of lib v d p] by auto

lemma merge_all_distinct:
  "distinct (source_files v) \<Longrightarrow> distinct (source_files (merge_all lib v ms))"
  by (induction ms arbitrary: v) (simp_all add: merge_into_viewer_distinct)

lemma merge_into_viewer_length:
  "distinct (columns (df v)) \<Longrightarrow> distinct (columns d) \<Longrightarrow>
     length (rows (df (fst (merge_into_viewer lib v d p)))) = length (rows (df v)) + length (rows d)"
  by (simp add: merge_into_viewer_df reindexed_rows_def)

lemma distinct_count_le: "distinct xs \<Longrightarrow> count_list xs x \<le> 1"
  by (induction xs) auto

subsection \<open>Recorded source files\<close>

text \<open>
  C10. Whatever files are merged into a viewer, and however often, every path is recorded
  in \<^verbatim>\<open>source_files\<close> at most once, provided the list had no duplicate to begin with (the
  program opens a viewer with one path or with none): the list stays free of duplicates
  over any sequence of merges, so does the entry that \<^verbatim>\<open>save_session\<close> writes for the viewer,
  and merging the same file twice leaves its path counted once. The rows are appended all
  the same: a merge of frames with unique column labels adds all rows of the merged file.
\<close>

theorem merge_records_source_once:
  assumes "distinct (source_files v)"
  shows "distinct (source_files (merge_all lib v ms))
       \<and> list_all (\<lambda>e. distinct (snd e)) (save_session \<lparr>viewers = [merge_all lib v ms]\<rparr>)
       \<and> count_list (source_files
            (fst (merge_into_viewer lib (fst (merge_into_viewer lib v d p)) d p))) p \<le> 1
       \<and> (distinct (columns (df v)) \<and> distinct (columns d) \<longrightarrow>
            length (rows (df (fst (merge_into_viewer lib v d p))))
              = length (rows (df v)) + length (rows d))"
proof -
  have a: "distinct (source_files (merge_all lib v ms))"
    using assms by (rule merge_all_distinct)
  have "distinct (source_files
          (fst (merge_into_viewer lib (fst (merge_into_viewer lib v d p)) d p)))"
    using assms by (simp add: merge_into_viewer_distinct)
  then have c: "count_list (source_files
          (fst (merge_into_viewer lib (fst (merge_into_viewer lib v d p)) d p))) p \<le> 1"
    by (rule distinct_count_le)
  show ?thesis using a c by (simp add: save_session_def merge_into_viewer_length)
qed

lemma ex_merge_twice:
  "source_files (merge_all ex_library ex_viewer
      [(ex_more, ''more.xlsx''), (ex_more, ''more.xlsx'')]) = [''plan.xlsx'', ''more.xlsx'']"
  "length (rows (df (merge_all ex_library ex_viewer
      [(ex_more, ''more.xlsx''), (ex_more, ''more.xlsx'')]))) = 4"
  "source_files ex_viewer = [''plan.xlsx'']"
  by code_simp+

theorem merge_records_source_once_witness:
  "distinct (source_files ex_viewer)
   \<and> distinct (source_files (merge_all ex_library ex_viewer
        [(ex_more, ''more.xlsx''), (ex_more, ''more.xlsx'')]))
   \<and> source_files (merge_all ex_library ex_viewer
        [(ex_more, ''more.xlsx''), (ex_more, ''more.xlsx'')]) = [''plan.xlsx'', ''more.xlsx'']
   \<and> length (rows (df (merge_all ex_library ex_viewer
        [(ex_more, ''more.xlsx''), (ex_more, ''more.xlsx'')]))) = 4"
proof -
  have h: "distinct (source_files ex_viewer)" by (simp add: ex_merge_twice)
  show ?thesis
    using h merge_records_source_once [OF h, of ex_library
        "[(ex_more, ''more.xlsx''), (ex_more, ''more.xlsx'')]" ex_more "''more.xlsx''"]
      ex_merge_twice(1,2)
    by blast
qed

lemma cell_at_filled:
  assumes "c \<in> set cols"
  shows "cell_at cols (map (\<lambda>c. case map_of (zip dc cs) c of Some x \<Rightarrow> x | None \<Rightarrow> fill) cols) c
       = (case map_of (zip dc cs) c of Some x \<Rightarrow> x | None \<Rightarrow> fill)"
  using assms by (simp add: cell_at_def map_of_zip_map)

lemma map_of_zip_absent: "c \<notin> set dc \<Longrightarrow> map_of (zip dc cs) c = None"
  by (metis map_of_eq_None_iff set_zip_leftD imageE prod.collapse)

lemma cell_at_present:
  assumes "c \<in> set dc" and "length cs = length dc"
  shows "(case map_of (zip dc cs) c of Some x \<Rightarrow> x | None \<Rightarrow> fill) = cell_at dc cs c"
proof -
  have "map_of (zip dc cs) c \<noteq> None"
    using assms by (simp add: map_of_zip_is_None)
  then show ?thesis by (auto simp: cell_at_def)
qed

lemma merged_row_base:
  assumes "distinct (columns (df v))" and "distinct (columns d)" and "i < length (rows (df v))"
  shows "snd (rows (df (fst (merge_into_viewer lib v d p))) ! i) =
         map (\<lambda>c. case map_of (zip (columns (df v)) (snd (rows (df v) ! i))) c of
                     Some x \<Rightarrow> x | None \<Rightarrow> Txt [])
             (columns (df (fst (merge_into_viewer lib v d p))))"
    and "fst (rows (df (fst (merge_into_viewer lib v d p))) ! i) = int i"
  using assms by (simp_all add: merge_into_viewer_df reindexed_rows_def nth_append)

lemma merged_row_incoming:
  assumes "distinct (columns (df v))" and "distinct (columns d)" and "j < length (rows d)"
  shows "snd (rows (df (fst (merge_into_viewer lib v d p))) ! (length (rows (df v)) + j)) =
         map (\<lambda>c. case map_of (zip (columns d) (snd (rows d ! j))) c of
                     Some x \<Rightarrow> x | None \<Rightarrow> Txt [])
             (columns (df (fst (merge_into_viewer lib v d p))))"
    and "fst (rows (df (fst (merge_into_viewer lib v d p))) ! (length (rows (df v)) + j))
          = int (length (rows (df v)) + j)"
  using assms by (simp_all add: merge_into_viewer_df reindexed_rows_def nth_append)

lemma wf_frame_row:
  "wf_frame d \<Longrightarrow> i < length (rows d) \<Longrightarrow> length (snd (rows d ! i)) = length (columns d)"
  by (simp add: wf_frame_def list_all_length)

subsection \<open>Merge\<close>

text \<open>
  C7. After \<^verbatim>\<open>_merge_into_viewer\<close> of a frame \<open>incoming\<close> into a viewer whose frame is the
  base (both with unique column labels and complete rows), the columns are the base's
  columns in their order followed by those of \<open>incoming\<close> that the base lacks, in their
  order; a column that only \<open>incoming\<close> has holds the empty text (not a missing
  value) in every row that came from the base, and a column that only the base has holds
  the empty text in every row that came from \<open>incoming\<close>.
\<close>

theorem merge_columns_union:
  assumes "wf_frame (df v)" and "wf_frame incoming"
  shows "columns (df (fst (merge_into_viewer lib v incoming p)))
           = columns (df v) @ filter (\<lambda>c. c \<notin> set (columns (df v))) (columns incoming)
       \<and> (\<forall>i<length (rows (df v)). \<forall>c\<in>set (columns incoming). c \<notin> set (columns (df v)) \<longrightarrow>
            cell_at (columns (df (fst (merge_into_viewer lib v incoming p))))
                    (snd (rows (df (fst (merge_into_viewer lib v incoming p))) ! i)) c = Txt [])
       \<and> (\<forall>j<length (rows incoming). \<forall>c\<in>set (columns (df v)). c \<notin> set (columns incoming) \<longrightarrow>
            cell_at (columns (df (fst (merge_into_viewer lib v incoming p))))
                    (snd (rows (df (fst (merge_into_viewer lib v incoming p)))
                      ! (length (rows (df v)) + j))) c = Txt [])"
proof -
  let ?m = "df (fst (merge_into_viewer lib v incoming p))"
  have db: "distinct (columns (df v))" and di: "distinct (columns incoming)"
    using assms by (simp_all add: wf_frame_def)
  have cols: "columns ?m = columns (df v) @ filter (\<lambda>c. c \<notin> set (columns (df v))) (columns incoming)"
    by (simp add: merge_into_viewer_df(1) [OF db di] union_cols_eq [OF db di])
  have base: "cell_at (columns ?m) (snd (rows ?m ! i)) c = Txt []"
    if "i < length (rows (df v))" "c \<in> set (columns incoming)" "c \<notin> set (columns (df v))" for i c
  proof -
    have "c \<in> set (columns ?m)" using that by (simp add: cols)
    then show ?thesis
      using that by (simp add: merged_row_base(1) [OF db di] cell_at_filled map_of_zip_absent)
  qed
  have inc: "cell_at (columns ?m) (snd (rows ?m ! (length (rows (df v)) + j))) c = Txt []"
    if "j < length (rows incoming)" "c \<in> set (columns (df v))" "c \<notin> set (columns incoming)" for j c
  proof -
    have "c \<in> set (columns ?m)" using that by (simp add: cols)
    then show ?thesis
      using that by (simp add: merged_row_incoming(1) [OF db di] cell_at_filled map_of_zip_absent)
  qed
  show ?thesis using cols base inc by blast
qed

text \<open>
  C8. The merged frame has as many rows as the base and \<open>incoming\<close> together, whatever
  columns they share; its index is the fresh range 0..N-1; the rows of the base come first,
  in their order, each with the cells it had under the base's columns, and the rows of
  \<open>incoming\<close> follow, in their order, each with the cells it had under its own columns.
\<close>

theorem merge_rows_concat:
  assumes "wf_frame (df v)" and "wf_frame incoming"
  shows "length (rows (df (fst (merge_into_viewer lib v incoming p))))
           = length (rows (df v)) + length (rows incoming)
       \<and> index (df (fst (merge_into_viewer lib v incoming p)))
           = map int [0..<length (rows (df v)) + length (rows incoming)]
       \<and> (\<forall>i<length (rows (df v)). \<forall>c\<in>set (columns (df v)).
            cell_at (columns (df (fst (merge_into_viewer lib v incoming p))))
                    (snd (rows (df (fst (merge_into_viewer lib v incoming p))) ! i)) c
              = cell_at (columns (df v)) (snd (rows (df v) ! i)) c)
       \<and> (\<forall>j<length (rows incoming). \<forall>c\<in>set (columns incoming).
            cell_at (columns (df (fst (merge_into_viewer lib v incoming p))))
                    (snd (rows (df (fst (merge_into_viewer lib v incoming p)))
                      ! (length (rows (df v)) + j))) c
              = cell_at (columns incoming) (snd (rows incoming ! j)) c)"
proof -
  let ?m = "df (fst (merge_into_viewer lib v incoming p))"
  have db: "distinct (columns (df v))" and di: "distinct (columns incoming)"
    using assms by (simp_all add: wf_frame_def)
  have cols: "columns ?m = columns (df v) @ filter (\<lambda>c. c \<notin> set (columns (df v))) (columns incoming)"
    by (simp add: merge_into_viewer_df(1) [OF db di] union_cols_eq [OF db di])
  have len: "length (rows ?m) = length (rows (df v)) + length (rows incoming)"
    by (rule merge_into_viewer_length [OF db di])
  have idx: "index ?m = map int [0..<length (rows (df v)) + length (rows incoming)]"
    by (simp add: index_def merge_into_viewer_df(2) [OF db di] reindexed_rows_def)
  have base: "cell_at (columns ?m) (snd (rows ?m ! i)) c = cell_at (columns (df v)) (snd (rows (df v) ! i)) c"
    if "i < length (rows (df v))" "c \<in> set (columns (df v))" for i c
  proof -
    have "c \<in> set (columns ?m)" using that by (simp add: cols)
    then show ?thesis
      using that wf_frame_row [OF assms(1) that(1)]
      by (simp add: merged_row_base(1) [OF db di] cell_at_filled cell_at_present)
  qed
  have inc: "cell_at (columns ?m) (snd (rows ?m ! (length (rows (df v)) + j))) c
               = cell_at (columns incoming) (snd (rows incoming ! j)) c"
    if "j < length (rows incoming)" "c \<in> set (columns incoming)" for j c
  proof -
    have "c \<in> set (columns ?m)" using that by (auto simp: cols)
    then show ?thesis
      using that wf_frame_row [OF assms(2) that(1)]
      by (simp add: merged_row_incoming(1) [OF db di] cell_at_filled cell_at_present)
  qed
  show ?thesis using len idx base inc by blast
qed

lemma ex_merge:
  "wf_frame (df ex_viewer)" "wf_frame ex_incoming"
  "df (fst (merge_into_viewer ex_library ex_viewer ex_incoming ''team.xlsx'')) =
     \<lparr>columns = [''Task'', ''Due'', ''Owner''],
      rows = [(0, [Txt ''write'', Txt ''mon'', Txt []]),
              (1, [Txt ''test'', Missing, Txt []]),
              (2, [Txt [], Txt ''tue'', Txt ''ann''])]\<rparr>"
  by code_simp+


lemma ex_merge_facts:
  "0 < length (rows (df ex_viewer))"
  "''Owner'' \<in> set (columns ex_incoming)" "''Owner'' \<notin> set (columns (df ex_viewer))"
  "0 < length (rows ex_incoming)"
  "''Task'' \<in> set (columns (df ex_viewer))" "''Task'' \<notin> set (columns ex_incoming)"
  "length (rows (df ex_viewer)) + 0 = 2"
  "columns (df ex_viewer) @ filter (\<lambda>c. c \<notin> set (columns (df ex_viewer))) (columns ex_incoming)
     = [''Task'', ''Due'', ''Owner'']"
  "''Due'' \<in> set (columns ex_incoming)"
  "cell_at (columns (df ex_viewer)) (snd (rows (df ex_viewer) ! 0)) ''Task'' = Txt ''write''"
  "cell_at (columns ex_incoming) (snd (rows ex_incoming ! 0)) ''Due'' = Txt ''tue''"
  "length (rows (df ex_viewer)) + length (rows ex_incoming) = 3"
  "map int [0..<length (rows (df ex_viewer)) + length (rows ex_incoming)] = [0, 1, 2]"
  by code_simp+

theorem merge_columns_union_witness:
  "wf_frame (df ex_viewer) \<and> wf_frame ex_incoming
   \<and> columns (df (fst (merge_into_viewer ex_library ex_viewer ex_incoming ''team.xlsx'')))
       = [''Task'', ''Due'', ''Owner'']
   \<and> cell_at (columns (df (fst (merge_into_viewer ex_library ex_viewer ex_incoming ''team.xlsx''))))
        (snd (rows (df (fst (merge_into_viewer ex_library ex_viewer ex_incoming ''team.xlsx''))) ! 0))
        ''Owner'' = Txt []
   \<and> cell_at (columns (df (fst (merge_into_viewer ex_library ex_viewer ex_incoming ''team.xlsx''))))
        (snd (rows (df (fst (merge_into_viewer ex_library ex_viewer ex_incoming ''team.xlsx''))) ! 2))
        ''Task'' = Txt []"
proof -
  note t = merge_columns_union [OF ex_merge(1) ex_merge(2), of ex_library "''team.xlsx''"]
  have a: "columns (df (fst (merge_into_viewer ex_library ex_viewer ex_incoming ''team.xlsx'')))
       = [''Task'', ''Due'', ''Owner'']"
    using t ex_merge_facts(8) by simp
  have b: "cell_at (columns (df (fst (merge_into_viewer ex_library ex_viewer ex_incoming ''team.xlsx''))))
        (snd (rows (df (fst (merge_into_viewer ex_library ex_viewer ex_incoming ''team.xlsx''))) ! 0))
        ''Owner'' = Txt []"
    using t ex_merge_facts(1,2,3) by blast
  have "cell_at (columns (df (fst (merge_into_viewer ex_library ex_viewer ex_incoming ''team.xlsx''))))
        (snd (rows (df (fst (merge_into_viewer ex_library ex_viewer ex_incoming ''team.xlsx'')))
           ! (length (rows (df ex_viewer)) + 0)))
        ''Task'' = Txt []"
    using t ex_merge_facts(4,5,6) by blast
  then have c: "cell_at (columns (df (fst (merge_into_viewer ex_library ex_viewer ex_incoming ''team.xlsx''))))
        (snd (rows (df (fst (merge_into_viewer ex_library ex_viewer ex_incoming ''team.xlsx''))) ! 2))
        ''Task'' = Txt []"
    by (simp only: ex_merge_facts(7))
  show ?thesis using ex_merge(1,2) a b c by blast
qed

theorem merge_rows_concat_witness:
  "wf_frame (df ex_viewer) \<and> wf_frame ex_incoming
   \<and> length (rows (df (fst (merge_into_viewer ex_library ex_viewer ex_incoming ''team.xlsx'')))) = 3
   \<and> index (df (fst (merge_into_viewer ex_library ex_viewer ex_incoming ''team.xlsx''))) = [0, 1, 2]
   \<and> cell_at (columns (df (fst (merge_into_viewer ex_library ex_viewer ex_incoming ''team.xlsx''))))
        (snd (rows (df (fst (merge_into_viewer ex_library ex_viewer ex_incoming ''team.xlsx''))) ! 0))
        ''Task'' = Txt ''write''
   \<and> cell_at (columns (df (fst (merge_into_viewer ex_library ex_viewer ex_incoming ''team.xlsx''))))
        (snd (rows (df (fst (merge_into_viewer ex_library ex_viewer ex_incoming ''team.xlsx''))) ! 2))
        ''Due'' = Txt ''tue''"
proof -
  note t = merge_rows_concat [OF ex_merge(1) ex_merge(2), of ex_library "''team.xlsx''"]
  have a: "length (rows (df (fst (merge_into_viewer ex_library ex_viewer ex_incoming ''team.xlsx'')))) = 3"
    using t ex_merge_facts(12) by simp
  have a': "index (df (fst (merge_into_viewer ex_library ex_viewer ex_incoming ''team.xlsx''))) = [0, 1, 2]"
    using t ex_merge_facts(13) by simp
  have "cell_at (columns (df (fst (merge_into_viewer ex_library ex_viewer ex_incoming ''team.xlsx''))))
        (snd (rows (df (fst (merge_into_viewer ex_library ex_viewer ex_incoming ''team.xlsx''))) ! 0))
        ''Task'' = cell_at (columns (df ex_viewer)) (snd (rows (df ex_viewer) ! 0)) ''Task''"
    using t ex_merge_facts(1,5) by blast
  then have b: "cell_at (columns (df (fst (merge_into_viewer ex_library ex_viewer ex_incoming ''team.xlsx''))))
        (snd (rows (df (fst (merge_into_viewer ex_library ex_viewer ex_incoming ''team.xlsx''))) ! 0))
        ''Task'' = Txt ''write''"
    by (simp only: ex_merge_facts(10))
  have "cell_at (columns (df (fst (merge_into_viewer ex_library ex_viewer ex_incoming ''team.xlsx''))))
        (snd (rows (df (fst (merge_into_viewer ex_library ex_viewer ex_incoming ''team.xlsx'')))
           ! (length (rows (df ex_viewer)) + 0)))
        ''Due'' = cell_at (columns ex_incoming) (snd (rows ex_incoming ! 0)) ''Due''"
    using t ex_merge_facts(4,9) by blast
  then have c: "cell_at (columns (df (fst (merge_into_viewer ex_library ex_viewer ex_incoming ''team.xlsx''))))
        (snd (rows (df (fst (merge_into_viewer ex_library ex_viewer ex_incoming ''team.xlsx''))) ! 2))
        ''Due'' = Txt ''tue''"
    by (simp only: ex_merge_facts(7,11))
  show ?thesis using ex_merge(1,2) a a' b c by blast
qed

subsection \<open>Deleting rows\<close>

lemma drop_index_present:
  "set labels \<subseteq> set (index d) \<Longrightarrow>
     drop_index d labels = Inr (d\<lparr>rows := filter (\<lambda>r. fst r \<notin> set labels) (rows d)\<rparr>)"
  by (auto simp: drop_index_def list_ex_iff)

lemma drop_index_absent:
  "\<not> set labels \<subseteq> set (index d) \<Longrightarrow> drop_index d labels = Inl KeyError"
  by (auto simp: drop_index_def list_ex_iff)

lemma delete_selected_df:
  assumes "selected_items \<noteq> []" and "selected_ids selected_items \<noteq> []"
    and "set (selected_ids selected_items) \<subseteq> set (index (df v))"
  shows "df (fst (delete_selected lib v selected_items True)) =
           reset_index (df v\<lparr>rows := filter (\<lambda>r. fst r \<notin> set (selected_ids selected_items)) (rows (df v))\<rparr>)"
proof -
  let ?d = "df v\<lparr>rows := filter (\<lambda>r. fst r \<notin> set (selected_ids selected_items)) (rows (df v))\<rparr>"
  have dr: "drop_index (df v) (List.map_filter py_int selected_items) = Inr ?d"
    using drop_index_present [OF assms(3)] by (simp add: selected_ids_def)
  have ne: "List.map_filter py_int selected_items \<noteq> []"
    using assms(2) by (simp add: selected_ids_def)
  show ?thesis
  proof (cases "on_search lib (v\<lparr>df := reset_index ?d\<rparr>)")
    case (Inl e)
    then show ?thesis using assms(1) ne by (simp add: delete_selected_def Let_def dr)
  next
    case (Inr v2)
    then have "df v2 = reset_index ?d" using on_search_fields(1) [OF Inr] by simp
    then show ?thesis using Inr assms(1) ne by (simp add: delete_selected_def Let_def dr)
  qed
qed

text \<open>
  C6, as the code has it. A confirmed deletion of a selection that names at least one id:
  when every selected id is a label of the frame, the rows with these labels are removed,
  the columns stay, and the remaining rows keep their order and cells under the fresh
  labels 0..N-1; when some selected id is not a label of the frame, \<^verbatim>\<open>drop\<close> raises KeyError,
  the handler reports it and the viewer is left as it was: nothing is deleted.
\<close>

theorem delete_selected_renumbers:
  assumes "selected_items \<noteq> []" and "selected_ids selected_items \<noteq> []"
  shows "(set (selected_ids selected_items) \<subseteq> set (index (df v)) \<longrightarrow>
            columns (df (fst (delete_selected lib v selected_items True))) = columns (df v)
          \<and> index (df (fst (delete_selected lib v selected_items True)))
              = map int [0..<length (filter (\<lambda>r. fst r \<notin> set (selected_ids selected_items)) (rows (df v)))]
          \<and> map snd (rows (df (fst (delete_selected lib v selected_items True))))
              = map snd (filter (\<lambda>r. fst r \<notin> set (selected_ids selected_items)) (rows (df v))))
       \<and> (\<not> set (selected_ids selected_items) \<subseteq> set (index (df v)) \<longrightarrow>
            delete_selected lib v selected_items True
              = (v, ShowError ''Failed to delete task'' KeyError))"
proof -
  have ne: "List.map_filter py_int selected_items \<noteq> []"
    using assms(2) by (simp add: selected_ids_def)
  have absent: "delete_selected lib v selected_items True = (v, ShowError ''Failed to delete task'' KeyError)"
    if "\<not> set (selected_ids selected_items) \<subseteq> set (index (df v))"
  proof -
    have "drop_index (df v) (List.map_filter py_int selected_items) = Inl KeyError"
      using drop_index_absent [OF that] by (simp add: selected_ids_def)
    then show ?thesis using assms(1) ne by (simp add: delete_selected_def Let_def)
  qed
  show ?thesis
    using absent by (auto simp: delete_selected_df [OF assms] reset_index_def index_def)
qed

lemma ex_five_facts:
  "[''2''] \<noteq> []" "selected_ids [''2''] \<noteq> []"
  "set (selected_ids [''2'']) \<subseteq> set (index (df ex_five))"
  "index (df ex_five) = [0, 1, 2, 3, 4]"
  "map int [0..<length (filter (\<lambda>r. fst r \<notin> set (selected_ids [''2''])) (rows (df ex_five)))] = [0, 1, 2, 3]"
  "map snd (filter (\<lambda>r. fst r \<notin> set (selected_ids [''2''])) (rows (df ex_five)))
     = [[Txt ''a''], [Txt ''b''], [Txt ''d''], [Txt ''e'']]"
  by code_simp+

theorem delete_selected_renumbers_witness:
  "[''2''] \<noteq> [] \<and> selected_ids [''2''] \<noteq> []
   \<and> set (selected_ids [''2'']) \<subseteq> set (index (df ex_five))
   \<and> index (df ex_five) = [0, 1, 2, 3, 4]
   \<and> index (df (fst (delete_selected ex_library ex_five [''2''] True))) = [0, 1, 2, 3]
   \<and> map snd (rows (df (fst (delete_selected ex_library ex_five [''2''] True))))
        = [[Txt ''a''], [Txt ''b''], [Txt ''d''], [Txt ''e'']]"
proof -
  note t = delete_selected_renumbers [OF ex_five_facts(1) ex_five_facts(2), of ex_five ex_library]
  have a: "index (df (fst (delete_selected ex_library ex_five [''2''] True))) = [0, 1, 2, 3]"
    using t ex_five_facts(3) by (simp only: ex_five_facts(5))
  have b: "map snd (rows (df (fst (delete_selected ex_library ex_five [''2''] True))))
        = [[Txt ''a''], [Txt ''b''], [Txt ''d''], [Txt ''e'']]"
    using t ex_five_facts(3) by (simp only: ex_five_facts(6))
  show ?thesis using ex_five_facts(1,2,3,4) a b by blast
qed

text \<open>
  C6 as stated fails where a selected id is absent: with the id 9 selected on the five rows
  0..4 the code does not pass over it in silence, it reports the KeyError; and with the ids
  2 and 9 selected it reports the KeyError and keeps all five rows, where the
  specification's deletion ignores 9 and leaves the four rows 0..3. (The tree lets the user
  select one item at a time; the method takes the selection as a sequence.)
\<close>

theorem delete_absent_id_counterexample:
  "delete_selected ex_library ex_five [''9''] True
     = (ex_five, ShowError ''Failed to delete task'' KeyError)
   \<and> delete_selected ex_library ex_five [''2'', ''9''] True
     = (ex_five, ShowError ''Failed to delete task'' KeyError)
   \<and> index (df (fst (delete_selected ex_library ex_five [''2'', ''9''] True))) = [0, 1, 2, 3, 4]
   \<and> index (spec_deleteRows {2, 9} (df ex_five)) = [0, 1, 2, 3]"
  by code_simp

subsection \<open>Marking rows done\<close>

lemma mark_row_empty: "mark_row c cols {} = (\<lambda>r. r)"
  by (rule ext) (simp add: mark_row_def)

lemma mark_row_absent:
  assumes "idx \<notin> set (index d)"
  shows "map (mark_row c cols {idx}) (rows d) = rows d"
proof (rule map_idI)
  fix r assume "r \<in> set (rows d)"
  then have "fst r \<noteq> idx" using assms by (auto simp: index_def)
  then show "mark_row c cols {idx} r = r" by (simp add: mark_row_def)
qed

lemma set_cells_idem:
  "map (\<lambda>(k, y). if k = c then x else y) (zip cols (map (\<lambda>(k, y). if k = c then x else y) (zip cols cs)))
     = map (\<lambda>(k, y). if k = c then x else y) (zip cols cs)"
proof (induction cols arbitrary: cs)
  case Nil
  show ?case by simp
next
  case (Cons a cols)
  then show ?case by (cases cs) auto
qed

lemma mark_row_twice:
  "mark_row c cols T (mark_row c cols A r) = mark_row c cols (A \<union> T) r"
  by (auto simp: mark_row_def set_cells_idem)

lemma selected_ids_Cons:
  "set (selected_ids (item # items)) =
     (case py_int item of None \<Rightarrow> {} | Some i \<Rightarrow> {i}) \<union> set (selected_ids items)"
  by (simp add: selected_ids_def map_filter_simps split: option.splits)

lemma map_of_zip_set_cells:
  "map_of (zip cols (map (\<lambda>(k, y). h k y) (zip cols cs))) k = map_option (h k) (map_of (zip cols cs) k)"
proof (induction cols arbitrary: cs)
  case Nil
  show ?case by simp
next
  case (Cons a cols)
  then show ?case by (cases cs) auto
qed

lemma cell_at_marked:
  assumes "k \<in> set cols" and "length cs = length cols"
  shows "cell_at cols (map (\<lambda>(k, y). if k = c then x else y) (zip cols cs)) k
       = (if k = c then x else cell_at cols cs k)"
proof -
  have "map_of (zip cols cs) k \<noteq> None"
    using assms by (simp add: map_of_zip_is_None)
  then show ?thesis
    by (auto simp: cell_at_def map_of_zip_set_cells [of cols "\<lambda>k y. if k = c then x else y"])
qed

lemma cell_at_mark_row:
  assumes "k \<in> set cols" and "length (snd r) = length cols"
  shows "cell_at cols (snd (mark_row c cols T r)) k
       = (if k = c \<and> fst r \<in> T then Txt ''Completed'' else cell_at cols (snd r) k)"
  using cell_at_marked [OF assms, of c "Txt ''Completed''"] by (auto simp: mark_row_def)

lemma fst_mark_row [simp]: "fst (mark_row c cols T r) = fst r"
  by (simp add: mark_row_def)

lemma status_is_status_like: "is_status_like ''Status''"
  by code_simp

lemma wf_frame_nth:
  "wf_frame d \<Longrightarrow> i < length (rows d) \<Longrightarrow> length (snd (rows d ! i)) = length (columns d)"
  by (simp add: wf_frame_def list_all_length)

lemma cell_at_snoc_old:
  assumes "k \<in> set cols" and "length cs = length cols"
  shows "cell_at (cols @ [c]) (cs @ [x]) k = cell_at cols cs k"
proof -
  have "\<exists>y. map_of (zip cols cs) k = Some y"
    using assms by (metis map_of_zip_is_None not_None_eq)
  then obtain y where y: "map_of (zip cols cs) k = Some y" by blast
  show ?thesis using assms by (simp add: cell_at_def map_add_def y)
qed

lemma cell_at_snoc_new:
  assumes "c \<notin> set cols" and "length cs = length cols"
  shows "cell_at (cols @ [c]) (cs @ [x]) c = x"
proof -
  have n: "map_of (zip cols cs) c = None"
    using assms by (simp add: map_of_zip_is_None)
  show ?thesis using assms by (simp add: cell_at_def map_add_def n)
qed

lemma frame_rows_same: "d\<lparr>rows := rows d\<rparr> = d"
  by simp

lemma set_at_accepted:
  "column_has_text d c \<or> at_accepts_text lib d c \<Longrightarrow>
     set_at lib d idx c (Txt ''Completed'')
       = Inr (d\<lparr>rows := map (mark_row c (columns d) {idx}) (rows d)\<rparr>)"
  by (simp add: set_at_def mark_row_def)

lemma set_at_refused:
  "\<not> column_has_text d c \<Longrightarrow> \<not> at_accepts_text lib d c \<Longrightarrow> set_at lib d idx c x = Inl TypeError"
  by (simp add: set_at_def)

lemma mark_item_accepted:
  assumes "column_has_text d c \<or> at_accepts_text lib d c"
  shows "mark_item lib c item d =
           Inr (d\<lparr>rows := map (mark_row c (columns d)
                   (case py_int item of None \<Rightarrow> {} | Some i \<Rightarrow> {i})) (rows d)\<rparr>)"
proof (cases "py_int item")
  case None
  then show ?thesis by (simp add: mark_item_def mark_row_empty)
next
  case (Some i)
  show ?thesis
  proof (cases "i \<in> set (index d)")
    case True
    then show ?thesis using Some by (simp add: mark_item_def set_at_accepted [OF assms])
  next
    case False
    then show ?thesis using Some by (simp add: mark_item_def mark_row_absent)
  qed
qed

lemma mark_item_stale:
  assumes "\<forall>i. py_int item = Some i \<longrightarrow> i \<notin> set (index d)"
  shows "mark_item lib c item d = Inr d"
  using assms by (simp add: mark_item_def split: option.splits)

lemma mark_items_stale:
  assumes "\<forall>i\<in>set (selected_ids items). i \<notin> set (index d)"
  shows "mark_items lib c items d = (d, None)"
  using assms
proof (induction items)
  case Nil
  show ?case by simp
next
  case (Cons item items)
  have "\<forall>i. py_int item = Some i \<longrightarrow> i \<notin> set (index d)"
    using Cons.prems by (auto simp: selected_ids_Cons)
  then have "mark_item lib c item d = Inr d" by (rule mark_item_stale)
  moreover have "\<forall>i\<in>set (selected_ids items). i \<notin> set (index d)"
    using Cons.prems by (auto simp: selected_ids_Cons)
  ultimately show ?case using Cons.IH by simp
qed

lemma mark_row_keeps_text:
  assumes "is_txt (cell_at cols (snd r) c)"
  shows "is_txt (cell_at cols (snd (mark_row c cols T r)) c)"
proof (cases "fst r \<in> T")
  case False
  then show ?thesis using assms by (simp add: mark_row_def)
next
  case True
  obtain s where "map_of (zip cols (snd r)) c = Some (Txt s)"
    using assms by (cases "map_of (zip cols (snd r)) c"; cases "cell_at cols (snd r) c")
      (auto simp: cell_at_def)
  then have "map_of (zip cols (map (\<lambda>(k, y). if k = c then Txt ''Completed'' else y)
                 (zip cols (snd r)))) c = Some (Txt ''Completed'')"
    by (simp add: map_of_zip_set_cells [of cols "\<lambda>k y. if k = c then Txt ''Completed'' else y"])
  then show ?thesis using True by (simp add: mark_row_def cell_at_def)
qed

lemma column_has_text_marked:
  assumes "column_has_text d c"
  shows "column_has_text (d\<lparr>rows := map (mark_row c (columns d) T) (rows d)\<rparr>) c"
proof -
  obtain r where r: "r \<in> set (rows d)" "is_txt (cell_at (columns d) (snd r) c)"
    using assms unfolding column_has_text_def list_ex_iff by blast
  let ?d = "d\<lparr>rows := map (mark_row c (columns d) T) (rows d)\<rparr>"
  have "mark_row c (columns d) T r \<in> set (rows ?d)"
    using r(1) by simp
  moreover have "is_txt (cell_at (columns ?d) (snd (mark_row c (columns d) T r)) c)"
    using mark_row_keeps_text [OF r(2)] by simp
  ultimately have "\<exists>x\<in>set (rows ?d). is_txt (cell_at (columns ?d) (snd x) c)"
    by (rule rev_bexI)
  then show ?thesis by (simp only: column_has_text_def list_ex_iff)
qed

lemma wf_frame_marked:
  assumes "wf_frame d"
  shows "wf_frame (d\<lparr>rows := map (mark_row c (columns d) T) (rows d)\<rparr>)"
proof -
  have "length (snd (mark_row c (columns d) T r)) = length (columns d)"
    if "length (snd r) = length (columns d)" for r
    using that by (simp add: mark_row_def)
  then show ?thesis using assms by (simp add: wf_frame_def list_all_iff)
qed

lemma marked_has_text:
  assumes "wf_frame d" and "c \<in> set (columns d)" and "i \<in> set (index d)"
  shows "column_has_text (d\<lparr>rows := map (mark_row c (columns d) {i}) (rows d)\<rparr>) c"
proof -
  obtain r where r: "r \<in> set (rows d)" "fst r = i"
    using assms(3) by (auto simp: index_def)
  then have len: "length (snd r) = length (columns d)"
    using assms(1) by (simp add: wf_frame_def list_all_iff)
  let ?d = "d\<lparr>rows := map (mark_row c (columns d) {i}) (rows d)\<rparr>"
  have "cell_at (columns d) (snd (mark_row c (columns d) {i} r)) c = Txt ''Completed''"
    using r(2) by (simp add: cell_at_mark_row [OF assms(2) len])
  then have istxt: "is_txt (cell_at (columns ?d) (snd (mark_row c (columns d) {i} r)) c)"
    by simp
  have "mark_row c (columns d) {i} r \<in> set (rows ?d)"
    using r(1) by simp
  then have "\<exists>x\<in>set (rows ?d). is_txt (cell_at (columns ?d) (snd x) c)"
    using istxt by (rule rev_bexI)
  then show ?thesis by (simp only: column_has_text_def list_ex_iff)
qed

lemma takes_text_marked:
  assumes "wf_frame d" and "c \<in> set (columns d)"
    and "column_has_text d c \<or> at_accepts_text lib d c"
  shows "column_has_text (d\<lparr>rows := map (mark_row c (columns d)
            (case py_int item of None \<Rightarrow> {} | Some i \<Rightarrow> {i})) (rows d)\<rparr>) c
       \<or> at_accepts_text lib (d\<lparr>rows := map (mark_row c (columns d)
            (case py_int item of None \<Rightarrow> {} | Some i \<Rightarrow> {i})) (rows d)\<rparr>) c"
proof (cases "column_has_text d c")
  case True
  then show ?thesis using column_has_text_marked by blast
next
  case False
  then have acc: "at_accepts_text lib d c" using assms(3) by blast
  show ?thesis
  proof (cases "py_int item")
    case None
    then show ?thesis using acc by (simp add: mark_row_empty)
  next
    case (Some i)
    show ?thesis
    proof (cases "i \<in> set (index d)")
      case True
      then show ?thesis using Some marked_has_text [OF assms(1,2) True] by simp
    next
      case False
      then show ?thesis using Some acc by (simp add: mark_row_absent)
    qed
  qed
qed

lemma mark_items_accepted:
  assumes "wf_frame d" and "c \<in> set (columns d)"
    and "column_has_text d c \<or> at_accepts_text lib d c"
  shows "mark_items lib c items d =
           (d\<lparr>rows := map (mark_row c (columns d) (set (selected_ids items))) (rows d)\<rparr>, None)"
  using assms
proof (induction items arbitrary: d)
  case Nil
  show ?case by (simp add: selected_ids_def map_filter_simps mark_row_empty)
next
  case (Cons item items)
  let ?A = "case py_int item of None \<Rightarrow> {} | Some i \<Rightarrow> {i}"
  let ?d = "d\<lparr>rows := map (mark_row c (columns d) ?A) (rows d)\<rparr>"
  have step: "mark_item lib c item d = Inr ?d"
    by (rule mark_item_accepted [OF Cons.prems(3)])
  have wf: "wf_frame ?d" by (rule wf_frame_marked [OF Cons.prems(1)])
  have col: "c \<in> set (columns ?d)" using Cons.prems(2) by simp
  have tk: "column_has_text ?d c \<or> at_accepts_text lib ?d c"
    by (rule takes_text_marked [OF Cons.prems])
  have "mark_items lib c (item # items) d = mark_items lib c items ?d"
    by (simp add: step)
  also have "\<dots> = (?d\<lparr>rows := map (mark_row c (columns ?d) (set (selected_ids items))) (rows ?d)\<rparr>, None)"
    by (rule Cons.IH [OF wf col tk])
  also have "\<dots> = (d\<lparr>rows := map (mark_row c (columns d) (set (selected_ids (item # items))))
                               (rows d)\<rparr>, None)"
    by (simp add: mark_row_twice selected_ids_Cons comp_def)
  finally show ?case .
qed

lemma mark_selected_done_df:
  assumes "selected_items \<noteq> []"
  shows "df (fst (mark_selected_done lib v selected_items)) =
           (case find is_status_like (columns (df v)) of
              Some col \<Rightarrow> fst (mark_items lib col selected_items (df v))
            | None \<Rightarrow> fst (mark_items lib ''Status'' selected_items
                        (add_column (df v) ''Status'' (Txt []))))"
proof -
  let ?found = "find is_status_like (columns (df v))"
  let ?sc = "case ?found of Some col \<Rightarrow> col | None \<Rightarrow> ''Status''"
  let ?d1 = "case ?found of Some col \<Rightarrow> df v | None \<Rightarrow> add_column (df v) ''Status'' (Txt [])"
  let ?m = "mark_items lib ?sc selected_items ?d1"
  let ?v1 = "v\<lparr>df := fst ?m\<rparr>"
  have "df (fst (mark_selected_done lib v selected_items)) = fst ?m"
  proof (cases "snd ?m")
    case (Some e)
    then show ?thesis using assms by (simp add: mark_selected_done_def Let_def)
  next
    case None
    show ?thesis
    proof (cases "on_search lib ?v1")
      case (Inl e)
      then show ?thesis using assms None by (simp add: mark_selected_done_def Let_def)
    next
      case (Inr v2)
      then have "df v2 = fst ?m" using on_search_fields(1) [OF Inr] by simp
      then show ?thesis using Inr assms None by (simp add: mark_selected_done_def Let_def)
    qed
  qed
  then show ?thesis by (simp split: option.splits)
qed

lemma mark_done_existing:
  assumes wf: "wf_frame (df v)" and sel: "selected_items \<noteq> []"
    and found: "find is_status_like (columns (df v)) = Some col"
    and takes: "column_has_text (df v) col \<or> at_accepts_text lib (df v) col"
  shows "columns (df (fst (mark_selected_done lib v selected_items))) = columns (df v)"
    and "index (df (fst (mark_selected_done lib v selected_items))) = index (df v)"
    and "i < length (rows (df v)) \<Longrightarrow> k \<in> set (columns (df v)) \<Longrightarrow>
         cell_at (columns (df (fst (mark_selected_done lib v selected_items))))
                 (snd (rows (df (fst (mark_selected_done lib v selected_items))) ! i)) k
           = (if k = col \<and> fst (rows (df v) ! i) \<in> set (selected_ids selected_items)
              then Txt ''Completed'' else cell_at (columns (df v)) (snd (rows (df v) ! i)) k)"
proof -
  let ?w = "df (fst (mark_selected_done lib v selected_items))"
  have col: "col \<in> set (columns (df v))"
    using found by (auto simp: find_Some_iff)
  have w: "?w = (df v)\<lparr>rows := map (mark_row col (columns (df v))
                   (set (selected_ids selected_items))) (rows (df v))\<rparr>"
    by (simp add: mark_selected_done_df [OF sel] found mark_items_accepted [OF wf col takes])
  show c: "columns ?w = columns (df v)" by (simp add: w)
  have r: "rows ?w = map (mark_row col (columns (df v)) (set (selected_ids selected_items))) (rows (df v))"
    by (simp add: w)
  show "index ?w = index (df v)" by (simp add: index_def r comp_def)
  show "cell_at (columns ?w) (snd (rows ?w ! i)) k
           = (if k = col \<and> fst (rows (df v) ! i) \<in> set (selected_ids selected_items)
              then Txt ''Completed'' else cell_at (columns (df v)) (snd (rows (df v) ! i)) k)"
    if "i < length (rows (df v))" "k \<in> set (columns (df v))"
    using that wf_frame_nth [OF wf that(1)] by (simp add: c r cell_at_mark_row)
qed

lemma wf_frame_add_column:
  "wf_frame d \<Longrightarrow> c \<notin> set (columns d) \<Longrightarrow> wf_frame (add_column d c x)"
  by (simp add: wf_frame_def add_column_def list_all_iff)

lemma add_column_has_text:
  assumes "wf_frame d" and "c \<notin> set (columns d)" and "rows d \<noteq> []"
  shows "column_has_text (add_column d c (Txt [])) c"
proof -
  obtain r where r: "r \<in> set (rows d)" using assms(3) by (cases "rows d") auto
  then have "length (snd r) = length (columns d)"
    using assms(1) by (simp add: wf_frame_def list_all_iff)
  then have "cell_at (columns d @ [c]) (snd r @ [Txt []]) c = Txt []"
    using assms(2) by (simp add: cell_at_snoc_new)
  then have istxt: "is_txt (cell_at (columns (add_column d c (Txt [])))
                        (snd (fst r, snd r @ [Txt []])) c)"
    by (simp add: add_column_def)
  have "(fst r, snd r @ [Txt []]) \<in> set (rows (add_column d c (Txt [])))"
    using r by (simp add: add_column_def image_iff) (rule rev_bexI, assumption, simp)
  then have "\<exists>x\<in>set (rows (add_column d c (Txt []))).
               is_txt (cell_at (columns (add_column d c (Txt []))) (snd x) c)"
    using istxt by (rule rev_bexI)
  then show ?thesis by (simp only: column_has_text_def list_ex_iff)
qed

lemma mark_items_created:
  assumes "wf_frame d" and "c \<notin> set (columns d)"
  shows "mark_items lib c items (add_column d c (Txt [])) =
           ((add_column d c (Txt []))\<lparr>rows := map (mark_row c (columns d @ [c]) (set (selected_ids items)))
                 (rows (add_column d c (Txt [])))\<rparr>, None)"
proof (cases "rows d = []")
  case True
  then have e: "rows (add_column d c (Txt [])) = []" by (simp add: add_column_def)
  then have "mark_items lib c items (add_column d c (Txt [])) = (add_column d c (Txt []), None)"
    by (intro mark_items_stale) (simp add: index_def)
  then show ?thesis using e by simp
next
  case False
  have "mark_items lib c items (add_column d c (Txt [])) =
          ((add_column d c (Txt []))\<lparr>rows := map (mark_row c (columns (add_column d c (Txt [])))
               (set (selected_ids items))) (rows (add_column d c (Txt [])))\<rparr>, None)"
    by (rule mark_items_accepted)
       (simp_all add: wf_frame_add_column [OF assms] add_column_has_text [OF assms False],
        simp add: add_column_def)
  then show ?thesis by (simp add: add_column_def)
qed

lemma mark_done_created:
  assumes wf: "wf_frame (df v)" and sel: "selected_items \<noteq> []"
    and none: "find is_status_like (columns (df v)) = None"
  shows "columns (df (fst (mark_selected_done lib v selected_items))) = columns (df v) @ [''Status'']"
    and "index (df (fst (mark_selected_done lib v selected_items))) = index (df v)"
    and "i < length (rows (df v)) \<Longrightarrow>
         cell_at (columns (df (fst (mark_selected_done lib v selected_items))))
                 (snd (rows (df (fst (mark_selected_done lib v selected_items))) ! i)) ''Status''
           = (if fst (rows (df v) ! i) \<in> set (selected_ids selected_items)
              then Txt ''Completed'' else Txt [])"
    and "i < length (rows (df v)) \<Longrightarrow> k \<in> set (columns (df v)) \<Longrightarrow>
         cell_at (columns (df (fst (mark_selected_done lib v selected_items))))
                 (snd (rows (df (fst (mark_selected_done lib v selected_items))) ! i)) k
           = cell_at (columns (df v)) (snd (rows (df v) ! i)) k"
proof -
  let ?w = "df (fst (mark_selected_done lib v selected_items))"
  let ?cols = "columns (df v) @ [''Status'']"
  let ?T = "set (selected_ids selected_items)"
  have fresh: "''Status'' \<notin> set (columns (df v))"
    using none status_is_status_like by (auto simp: find_None_iff)
  have w: "?w = (add_column (df v) ''Status'' (Txt []))\<lparr>rows := map (mark_row ''Status'' ?cols ?T)
                   (rows (add_column (df v) ''Status'' (Txt [])))\<rparr>"
    by (simp add: mark_selected_done_df [OF sel] none mark_items_created [OF wf fresh])
  show c: "columns ?w = ?cols" by (simp add: w add_column_def)
  have r: "rows ?w = map (mark_row ''Status'' ?cols ?T)
                       (map (\<lambda>r. (fst r, snd r @ [Txt []])) (rows (df v)))"
    by (simp add: w add_column_def)
  show "index ?w = index (df v)" by (simp add: index_def r comp_def)
  have row: "cell_at ?cols (snd (rows ?w ! i)) k
      = (if k = ''Status'' \<and> fst (rows (df v) ! i) \<in> ?T then Txt ''Completed''
         else cell_at ?cols (snd (rows (df v) ! i) @ [Txt []]) k)"
    if "i < length (rows (df v))" "k \<in> set ?cols" for k
    using that wf_frame_nth [OF wf that(1)]
      cell_at_mark_row [of k ?cols "(fst (rows (df v) ! i), snd (rows (df v) ! i) @ [Txt []])" "''Status''" ?T]
    by (simp add: r)
  show "cell_at (columns ?w) (snd (rows ?w ! i)) ''Status''
           = (if fst (rows (df v) ! i) \<in> ?T then Txt ''Completed'' else Txt [])"
    if "i < length (rows (df v))"
    using row [OF that, of "''Status''"] wf_frame_nth [OF wf that] fresh
    by (simp add: c cell_at_snoc_new)
  show "cell_at (columns ?w) (snd (rows ?w ! i)) k = cell_at (columns (df v)) (snd (rows (df v) ! i)) k"
    if "i < length (rows (df v))" "k \<in> set (columns (df v))"
  proof -
    have "k \<noteq> ''Status''" using that(2) fresh by auto
    then show ?thesis
      using row [OF that(1), of k] that(2) wf_frame_nth [OF wf that(1)]
      by (simp add: c cell_at_snoc_old)
  qed
qed

text \<open>
  Where the status column takes a text (it holds one already, or the library accepts one),
  marking a non-empty selection done does what the specification says, on a frame with
  unique column labels and complete rows. When some column has a lower-cased name among
  \<^verbatim>\<open>status\<close>, \<^verbatim>\<open>state\<close>, \<^verbatim>\<open>progress\<close>, the first such column in declared order is the one
  updated: columns and index stay, the selected rows get \<^verbatim>\<open>Completed\<close> in that column and
  every other cell stays. When no column is of that kind, a column named \<^verbatim>\<open>Status\<close> is
  appended: the selected rows hold \<^verbatim>\<open>Completed\<close> in it, all other rows the empty text, and
  every cell under the old columns stays; a column created this way always takes the text.
\<close>

lemma mark_done_where_accepted:
  assumes "wf_frame (df v)" and "selected_items \<noteq> []"
  shows "(\<forall>n<length (columns (df v)).
            is_status_like (columns (df v) ! n) \<and> (\<forall>j<n. \<not> is_status_like (columns (df v) ! j))
            \<and> (column_has_text (df v) (columns (df v) ! n)
                \<or> at_accepts_text lib (df v) (columns (df v) ! n)) \<longrightarrow>
              columns (df (fst (mark_selected_done lib v selected_items))) = columns (df v)
            \<and> index (df (fst (mark_selected_done lib v selected_items))) = index (df v)
            \<and> (\<forall>i<length (rows (df v)). \<forall>k\<in>set (columns (df v)).
                 cell_at (columns (df (fst (mark_selected_done lib v selected_items))))
                         (snd (rows (df (fst (mark_selected_done lib v selected_items))) ! i)) k
                 = (if k = columns (df v) ! n
                       \<and> fst (rows (df v) ! i) \<in> set (selected_ids selected_items)
                    then Txt ''Completed''
                    else cell_at (columns (df v)) (snd (rows (df v) ! i)) k)))
       \<and> ((\<forall>c\<in>set (columns (df v)). \<not> is_status_like c) \<longrightarrow>
              columns (df (fst (mark_selected_done lib v selected_items)))
                = columns (df v) @ [''Status'']
            \<and> index (df (fst (mark_selected_done lib v selected_items))) = index (df v)
            \<and> (\<forall>i<length (rows (df v)).
                 cell_at (columns (df (fst (mark_selected_done lib v selected_items))))
                         (snd (rows (df (fst (mark_selected_done lib v selected_items))) ! i)) ''Status''
                 = (if fst (rows (df v) ! i) \<in> set (selected_ids selected_items)
                    then Txt ''Completed'' else Txt [])
               \<and> (\<forall>k\<in>set (columns (df v)).
                    cell_at (columns (df (fst (mark_selected_done lib v selected_items))))
                            (snd (rows (df (fst (mark_selected_done lib v selected_items))) ! i)) k
                    = cell_at (columns (df v)) (snd (rows (df v) ! i)) k)))"
proof -
  have existing: "columns (df (fst (mark_selected_done lib v selected_items))) = columns (df v)
      \<and> index (df (fst (mark_selected_done lib v selected_items))) = index (df v)
      \<and> (\<forall>i<length (rows (df v)). \<forall>k\<in>set (columns (df v)).
           cell_at (columns (df (fst (mark_selected_done lib v selected_items))))
                   (snd (rows (df (fst (mark_selected_done lib v selected_items))) ! i)) k
           = (if k = columns (df v) ! n
                 \<and> fst (rows (df v) ! i) \<in> set (selected_ids selected_items)
              then Txt ''Completed''
              else cell_at (columns (df v)) (snd (rows (df v) ! i)) k))"
    if n: "n < length (columns (df v))"
      and first: "is_status_like (columns (df v) ! n)
                  \<and> (\<forall>j<n. \<not> is_status_like (columns (df v) ! j))"
      and takes: "column_has_text (df v) (columns (df v) ! n)
                  \<or> at_accepts_text lib (df v) (columns (df v) ! n)" for n
  proof -
    have found: "find is_status_like (columns (df v)) = Some (columns (df v) ! n)"
      using n first by (auto simp: find_Some_iff)
    note e = mark_done_existing [OF assms found takes]
    show ?thesis using e(1) e(2) e(3) by blast
  qed
  have created: "columns (df (fst (mark_selected_done lib v selected_items)))
                = columns (df v) @ [''Status'']
            \<and> index (df (fst (mark_selected_done lib v selected_items))) = index (df v)
            \<and> (\<forall>i<length (rows (df v)).
                 cell_at (columns (df (fst (mark_selected_done lib v selected_items))))
                         (snd (rows (df (fst (mark_selected_done lib v selected_items))) ! i)) ''Status''
                 = (if fst (rows (df v) ! i) \<in> set (selected_ids selected_items)
                    then Txt ''Completed'' else Txt [])
               \<and> (\<forall>k\<in>set (columns (df v)).
                    cell_at (columns (df (fst (mark_selected_done lib v selected_items))))
                            (snd (rows (df (fst (mark_selected_done lib v selected_items))) ! i)) k
                    = cell_at (columns (df v)) (snd (rows (df v) ! i)) k))"
    if "\<forall>c\<in>set (columns (df v)). \<not> is_status_like c"
  proof -
    have none: "find is_status_like (columns (df v)) = None"
      using that by (simp add: find_None_iff)
    note e = mark_done_created [OF assms none]
    show ?thesis using e(1) e(2) e(3) e(4) by blast
  qed
  show ?thesis using existing created by blast
qed


lemma mark_done_example:
  "df (fst (mark_selected_done ex_library ex_tasks [''0'']))
     = \<lparr>columns = [''Task'', ''Priority'', ''Status''],
        rows = [(0, [Txt ''write'', Txt ''High'', Txt ''Completed'']),
                (1, [Txt ''test'', Txt ''Low'', Txt []])]\<rparr>"
  "df (fst (mark_selected_done ex_library ex_states [''1'']))
     = \<lparr>columns = [''Task'', ''STATE'', ''Status''],
        rows = [(0, [Txt ''write'', Txt ''open'', Missing]),
                (1, [Txt ''test'', Txt ''Completed'', Missing])]\<rparr>"
  by code_simp+

text \<open>
  C9. The claim fails on the code where pandas refuses a text in the status column. On the
  frame whose \<^verbatim>\<open>Status\<close> column is blank in every row (a float column as the loader returns
  it), under a library that decides as pandas 3.x, marking the row 0 done ends in the
  TypeError of \<^verbatim>\<open>.at\<close>: the handler reports it and the viewer is left as it was, with no
  cell set to \<^verbatim>\<open>Completed\<close>.
\<close>

theorem mark_done_blank_status_fails:
  "mark_selected_done ex_library ex_blank_status [''0'']
     = (ex_blank_status, ShowError ''Failed to mark task as done'' TypeError)
   \<and> rows (df ex_blank_status) = [(0, [Txt ''write'', Missing]), (1, [Txt ''test'', Missing])]
   \<and> find is_status_like (columns (df ex_blank_status)) = Some ''Status''"
  by code_simp

lemma index_add_column [simp]: "index (add_column d c x) = index d"
  by (simp add: index_def add_column_def comp_def)

lemma mark_selected_done_stale:
  assumes "selected_items \<noteq> []"
    and "\<forall>i\<in>set (selected_ids selected_items). i \<notin> set (index d1)"
    and "found = find is_status_like (columns (df v))"
    and "d1 = (case found of Some col \<Rightarrow> df v | None \<Rightarrow> add_column (df v) ''Status'' (Txt []))"
  shows "mark_selected_done lib v selected_items =
           (case on_search lib (v\<lparr>df := d1\<rparr>) of
              Inl e \<Rightarrow> (after_search lib (v\<lparr>df := d1\<rparr>), ShowError ''Failed to mark task as done'' e)
            | Inr v2 \<Rightarrow> (v2, Done))"
proof -
  have "mark_items lib (case found of Some col \<Rightarrow> col | None \<Rightarrow> ''Status'') selected_items d1
          = (d1, None)"
    by (rule mark_items_stale [OF assms(2)])
  then show ?thesis
    using assms(1)
    by (simp add: mark_selected_done_def Let_def assms(3) [symmetric] assms(4) [symmetric]
        cong del: sum.case_cong_weak)
qed

text \<open>
  C4, as the code has it. A selected id that is no label of the frame is skipped by the
  guard \<^verbatim>\<open>if idx in self.df.index\<close>: when no selected id is a label, the frame is left as it
  is, up to the \<^verbatim>\<open>Status\<close> column that is created when no status-like column exists (an
  unknown column is created, not reported). The method reports nothing for such an id: it
  ends normally unless the refresh that follows raises, and then it reports that exception.
\<close>

theorem mark_done_skips_stale_ids:
  assumes "selected_items \<noteq> []"
    and "\<forall>i\<in>set (selected_ids selected_items). i \<notin> set (index (df v))"
  shows "df (fst (mark_selected_done lib v selected_items))
           = (if list_ex is_status_like (columns (df v)) then df v
              else add_column (df v) ''Status'' (Txt []))
       \<and> (snd (mark_selected_done lib v selected_items) = Done
          \<or> (\<exists>e. snd (mark_selected_done lib v selected_items)
                    = ShowError ''Failed to mark task as done'' e
                \<and> on_search lib (fst (mark_selected_done lib v selected_items)) = Inl e))"
proof -
  let ?found = "find is_status_like (columns (df v))"
  let ?d1 = "case ?found of Some col \<Rightarrow> df v | None \<Rightarrow> add_column (df v) ''Status'' (Txt [])"
  have stale: "\<forall>i\<in>set (selected_ids selected_items). i \<notin> set (index ?d1)"
    using assms(2) by (simp split: option.splits)
  note m = mark_selected_done_stale [OF assms(1) stale refl refl, of lib]
  have d1: "?d1 = (if list_ex is_status_like (columns (df v)) then df v
              else add_column (df v) ''Status'' (Txt []))"
  proof (cases ?found)
    case None
    then have "\<not> list_ex is_status_like (columns (df v))"
      by (simp add: find_None_iff list_ex_iff)
    then show ?thesis using None by simp
  next
    case (Some col)
    then have "list_ex is_status_like (columns (df v))"
      by (auto simp: find_Some_iff list_ex_iff)
    then show ?thesis using Some by simp
  qed
  show ?thesis
  proof (cases "on_search lib (v\<lparr>df := ?d1\<rparr>)")
    case (Inl e)
    then have r: "mark_selected_done lib v selected_items =
        (after_search lib (v\<lparr>df := ?d1\<rparr>), ShowError ''Failed to mark task as done'' e)"
      by (simp add: m)
    have "on_search lib (after_search lib (v\<lparr>df := ?d1\<rparr>)) = Inl e"
      by (rule on_search_failed_again [OF Inl])
    then show ?thesis using d1 by (simp add: r)
  next
    case (Inr v2)
    then have r: "mark_selected_done lib v selected_items = (v2, Done)"
      by (simp add: m)
    have "df v2 = ?d1" using on_search_fields(1) [OF Inr] by simp
    then show ?thesis using d1 by (simp add: r)
  qed
qed

text \<open>
  C4 as stated fails: marking the id 7 on the two rows 0 and 1 of a frame with a status
  column ends normally, without any error, and leaves the viewer as it was; and on a frame
  without a status-like column the column \<^verbatim>\<open>Status\<close> is created and the selected row marked.
\<close>

theorem mark_done_stale_id_counterexample:
  "mark_selected_done ex_library ex_states [''7''] = (ex_states, Done)
   \<and> 7 \<notin> set (index (df ex_states))
   \<and> ''Status'' \<notin> set (columns (df ex_tasks))
   \<and> df (fst (mark_selected_done ex_library ex_tasks [''0'']))
       = \<lparr>columns = [''Task'', ''Priority'', ''Status''],
          rows = [(0, [Txt ''write'', Txt ''High'', Txt ''Completed'']),
                  (1, [Txt ''test'', Txt ''Low'', Txt []])]\<rparr>"
  by code_simp

lemma ex_stale_facts:
  "[''7''] \<noteq> []" "\<forall>i\<in>set (selected_ids [''7'']). i \<notin> set (index (df ex_states))"
  "list_ex is_status_like (columns (df ex_states)) = True"
  "on_search ex_library (fst (mark_selected_done ex_library ex_states [''7'']))
     = Inr (fst (mark_selected_done ex_library ex_states [''7'']))"
  "set (selected_ids [''7'']) \<inter> set (index (df ex_states)) = {}"
  by code_simp+

theorem mark_done_skips_stale_ids_witness:
  "[''7''] \<noteq> [] \<and> set (selected_ids [''7'']) \<inter> set (index (df ex_states)) = {}
   \<and> df (fst (mark_selected_done ex_library ex_states [''7''])) = df ex_states
   \<and> snd (mark_selected_done ex_library ex_states [''7'']) = Done"
proof -
  note t = mark_done_skips_stale_ids [OF ex_stale_facts(1) ex_stale_facts(2), of ex_library]
  have a: "df (fst (mark_selected_done ex_library ex_states [''7''])) = df ex_states"
    using t by (simp add: ex_stale_facts(3))
  have b: "snd (mark_selected_done ex_library ex_states [''7'']) = Done"
    using t ex_stale_facts(4) by auto
  show ?thesis using ex_stale_facts(1,5) a b by blast
qed

subsection \<open>Mutation and refresh\<close>

lemma add_task_refreshed:
  assumes "snd (on_add_task_confirm lib v entries) = Done"
  shows "on_search lib (fst (on_add_task_confirm lib v entries)) = Inr (fst (on_add_task_confirm lib v entries))"
  using assms by (auto simp: on_add_task_confirm_def Let_def on_search_idem split: sum.splits)

lemma mark_done_refreshed:
  assumes "selected_items \<noteq> []" and "snd (mark_selected_done lib v selected_items) = Done"
  shows "on_search lib (fst (mark_selected_done lib v selected_items))
           = Inr (fst (mark_selected_done lib v selected_items))"
  using assms
  by (auto simp: mark_selected_done_def Let_def on_search_idem split: sum.splits option.splits)

lemma delete_refreshed:
  assumes "selected_items \<noteq> []" and "selected_ids selected_items \<noteq> []"
    and "snd (delete_selected lib v selected_items True) = Done"
  shows "on_search lib (fst (delete_selected lib v selected_items True))
           = Inr (fst (delete_selected lib v selected_items True))"
  using assms
  by (auto simp: delete_selected_def selected_ids_def Let_def on_search_idem split: sum.splits)

text \<open>
  C5, as the code has it. Adding a task, marking a selection done and a confirmed deletion
  each call \<^verbatim>\<open>on_search\<close> themselves after changing the frame. When such a call ends
  normally, the viewer is already refreshed: the shown frame is the filter result on the
  changed frame, and a further \<^verbatim>\<open>on_search\<close> returns the viewer as it is.
\<close>

theorem mutation_refreshes_view:
  "(snd (on_add_task_confirm lib v entries) = Done \<longrightarrow>
      on_search lib (fst (on_add_task_confirm lib v entries))
        = Inr (fst (on_add_task_confirm lib v entries))
    \<and> visible_frame lib (fst (on_add_task_confirm lib v entries))
        = Inr (filtered_df (fst (on_add_task_confirm lib v entries))))
   \<and> (selected_items \<noteq> [] \<and> snd (mark_selected_done lib v selected_items) = Done \<longrightarrow>
      on_search lib (fst (mark_selected_done lib v selected_items))
        = Inr (fst (mark_selected_done lib v selected_items))
    \<and> visible_frame lib (fst (mark_selected_done lib v selected_items))
        = Inr (filtered_df (fst (mark_selected_done lib v selected_items))))
   \<and> (selected_items \<noteq> [] \<and> selected_ids selected_items \<noteq> []
       \<and> snd (delete_selected lib v selected_items True) = Done \<longrightarrow>
      on_search lib (fst (delete_selected lib v selected_items True))
        = Inr (fst (delete_selected lib v selected_items True))
    \<and> visible_frame lib (fst (delete_selected lib v selected_items True))
        = Inr (filtered_df (fst (delete_selected lib v selected_items True))))"
  using add_task_refreshed [of lib v entries] mark_done_refreshed [of selected_items lib v]
    delete_refreshed [of selected_items lib v] on_search_filtered
  by blast

lemma ex_mutation_facts:
  "snd (on_add_task_confirm ex_library ex_tasks (map_of [(''Task'', ''ship'')])) = Done"
  "[''2''] \<noteq> []" "selected_ids [''2''] \<noteq> []"
  "snd (delete_selected ex_library ex_five [''2''] True) = Done"
  "snd (mark_selected_done ex_library ex_states [''1'']) = Done"
  "[''1''] \<noteq> []"
  by code_simp+

theorem mutation_refreshes_view_witness:
  "snd (on_add_task_confirm ex_library ex_tasks (map_of [(''Task'', ''ship'')])) = Done
   \<and> on_search ex_library (fst (on_add_task_confirm ex_library ex_tasks (map_of [(''Task'', ''ship'')])))
       = Inr (fst (on_add_task_confirm ex_library ex_tasks (map_of [(''Task'', ''ship'')])))
   \<and> [''1''] \<noteq> []
   \<and> snd (mark_selected_done ex_library ex_states [''1'']) = Done
   \<and> on_search ex_library (fst (mark_selected_done ex_library ex_states [''1'']))
       = Inr (fst (mark_selected_done ex_library ex_states [''1'']))
   \<and> [''2''] \<noteq> [] \<and> selected_ids [''2''] \<noteq> []
   \<and> snd (delete_selected ex_library ex_five [''2''] True) = Done
   \<and> visible_frame ex_library (fst (delete_selected ex_library ex_five [''2''] True))
       = Inr (filtered_df (fst (delete_selected ex_library ex_five [''2''] True)))"
proof -
  note t = mutation_refreshes_view [of ex_library ex_tasks "map_of [(''Task'', ''ship'')]" "[''2'']"]
  note u = mutation_refreshes_view [of ex_library ex_five "map_of [(''Task'', ''ship'')]" "[''2'']"]
  note w = mutation_refreshes_view [of ex_library ex_states "map_of [(''Task'', ''ship'')]" "[''1'']"]
  have a: "on_search ex_library (fst (on_add_task_confirm ex_library ex_tasks (map_of [(''Task'', ''ship'')])))
       = Inr (fst (on_add_task_confirm ex_library ex_tasks (map_of [(''Task'', ''ship'')])))"
    using t ex_mutation_facts(1) by blast
  have b: "on_search ex_library (fst (mark_selected_done ex_library ex_states [''1'']))
       = Inr (fst (mark_selected_done ex_library ex_states [''1'']))"
    using w ex_mutation_facts(5,6) by blast
  have c: "visible_frame ex_library (fst (delete_selected ex_library ex_five [''2''] True))
       = Inr (filtered_df (fst (delete_selected ex_library ex_five [''2''] True)))"
    using u ex_mutation_facts(2,3,4) by blast
  show ?thesis using ex_mutation_facts a b c by blast
qed

text \<open>
  C5 as stated fails: the shown rows change within the mutating call. After adding a task
  to the two shown rows, three rows are shown and the tree has three items; after deleting
  the row 2 of five shown rows, four rows are shown.
\<close>

theorem mutation_view_counterexample:
  "index (filtered_df ex_tasks) = [0, 1]
   \<and> index (filtered_df (fst (on_add_task_confirm ex_library ex_tasks (map_of [(''Task'', ''ship'')]))))
       = [0, 1, 2]
   \<and> map fst (tree ex_tasks) = [''0'', ''1'']
   \<and> map fst (tree (fst (on_add_task_confirm ex_library ex_tasks (map_of [(''Task'', ''ship'')]))))
       = [''0'', ''1'', ''2'']
   \<and> map snd (rows (filtered_df ex_five)) = [[Txt ''a''], [Txt ''b''], [Txt ''c''], [Txt ''d''], [Txt ''e'']]
   \<and> map snd (rows (filtered_df (fst (delete_selected ex_library ex_five [''2''] True))))
       = [[Txt ''a''], [Txt ''b''], [Txt ''d''], [Txt ''e'']]"
  by code_simp

subsection \<open>Filtering on the active column\<close>

lemma is_prefix_iff: "is_prefix p s \<longleftrightarrow> (\<exists>b. s = p @ b)"
  by (induction p s rule: is_prefix.induct) auto

lemma contains_str_iff: "contains_str p s \<longleftrightarrow> (\<exists>a b. s = a @ p @ b)"
proof (induction s)
  case Nil
  show ?case by auto
next
  case (Cons c s)
  show ?case
  proof
    assume "contains_str p (c # s)"
    then consider "is_prefix p (c # s)" | "contains_str p s" by auto
    then show "\<exists>a b. c # s = a @ p @ b"
    proof cases
      case 1
      then obtain b where "c # s = p @ b" by (auto simp: is_prefix_iff)
      then have "c # s = [] @ p @ b" by simp
      then show ?thesis by blast
    next
      case 2
      then obtain a b where "s = a @ p @ b" using Cons by blast
      then have "c # s = (c # a) @ p @ b" by simp
      then show ?thesis by blast
    qed
  next
    assume "\<exists>a b. c # s = a @ p @ b"
    then obtain a b where ab: "c # s = a @ p @ b" by blast
    show "contains_str p (c # s)"
    proof (cases a)
      case Nil
      then have "is_prefix p (c # s)" using ab by (auto simp: is_prefix_iff)
      then show ?thesis by simp
    next
      case (Cons x a')
      then have "s = a' @ p @ b" using ab by simp
      then have "contains_str p s" using Cons.IH by blast
      then show ?thesis by simp
    qed
  qed
qed

lemma get_column_ok:
  assumes "c \<in> set (columns d)" and "distinct (columns d)"
  shows "get_column d c = Inr (map (\<lambda>r. cell_at (columns d) (snd r) c) (rows d))"
  using assms distinct_count_le [OF assms(2), of c] by (simp add: get_column_def)

lemma re_compile_literal: "\<not> list_ex is_meta q \<Longrightarrow> re_compile lib q = Some (contains_str q)"
  by (simp add: re_compile_def)

lemma lower_latin1: "lower (''CAF'' @ [CHR 0xC9]) = ''caf'' @ [CHR 0xE9]"
  by code_simp

lemma visible_frame_empty_query:
  "strip (lower (search_var v)) = [] \<Longrightarrow> visible_frame lib v = Inr (df v)"
  by (simp add: visible_frame_def)

lemma visible_frame_active:
  assumes "active_column v = Some c" and "c \<noteq> []" and "c \<in> set (columns (df v))"
    and "distinct (columns (df v))"
    and "strip (lower (search_var v)) \<noteq> []" and "\<not> list_ex is_meta (strip (lower (search_var v)))"
  shows "visible_frame lib v =
           Inr (df v\<lparr>rows := filter (\<lambda>r. str_contains (contains_str (strip (lower (search_var v))))
                         (column_text lib (df v) c (cell_at (columns (df v)) (snd r) c)))
                       (rows (df v))\<rparr>)"
  using assms
  by (simp add: visible_frame_def Let_def get_column_ok re_compile_literal)

lemma filtered_after_search:
  "visible_frame lib v = Inr f \<Longrightarrow> filtered_df (after_search lib v) = f"
  by (simp add: after_search_def)

lemma on_search_or_heading:
  "visible_frame lib v = Inr f \<Longrightarrow>
     on_search lib v = Inr (after_search lib v) \<or> on_search lib v = Inl TclError"
  by (simp add: on_search_by_after)

text \<open>
  C3, as the code has it. With an active column that is a column of the frame (unique
  labels): let the query be the search text lower-cased and then stripped of surrounding
  whitespace. If the query is empty, every row is shown. If it is not empty and has no
  special character of regular expressions, the rows shown are rows of the frame in stored
  order, and a row whose cell in the active column is present is among them exactly when
  the text of that cell, lower-cased, contains the query: the text of a text cell is the
  cell itself, the text of a number is the one the library renders. Nothing is said of the
  rows whose cell is missing. The shown frame is set in this way whether or not the
  heading update that follows raises; that TclError is the only exception of the call here.
\<close>

theorem visible_rows_active_column:
  assumes "active_column v = Some c" and "c \<noteq> []" and "c \<in> set (columns (df v))"
    and "distinct (columns (df v))"
  shows "(strip (lower (search_var v)) = [] \<longrightarrow> filtered_df (after_search lib v) = df v)
       \<and> (strip (lower (search_var v)) \<noteq> [] \<and> \<not> list_ex is_meta (strip (lower (search_var v))) \<longrightarrow>
            columns (filtered_df (after_search lib v)) = columns (df v)
          \<and> (\<exists>P. rows (filtered_df (after_search lib v)) = filter P (rows (df v))
                \<and> (\<forall>r s. cell_at (columns (df v)) (snd r) c = Txt s \<longrightarrow>
                      P r = (\<exists>a b. lower s = a @ strip (lower (search_var v)) @ b))
                \<and> (\<forall>r n. cell_at (columns (df v)) (snd r) c = Num n \<longrightarrow>
                      P r = (\<exists>a b. lower (column_num_text lib (df v) c n)
                                      = a @ strip (lower (search_var v)) @ b))))
       \<and> (strip (lower (search_var v)) = [] \<or> \<not> list_ex is_meta (strip (lower (search_var v))) \<longrightarrow>
            on_search lib v = Inr (after_search lib v) \<or> on_search lib v = Inl TclError)"
proof -
  let ?q = "strip (lower (search_var v))"
  let ?P = "\<lambda>r. str_contains (contains_str ?q)
                 (column_text lib (df v) c (cell_at (columns (df v)) (snd r) c))"
  have empty: "filtered_df (after_search lib v) = df v" if "?q = []"
    using that by (simp add: filtered_after_search visible_frame_empty_query)
  have lit: "columns (filtered_df (after_search lib v)) = columns (df v)
          \<and> (\<exists>P. rows (filtered_df (after_search lib v)) = filter P (rows (df v))
                \<and> (\<forall>r s. cell_at (columns (df v)) (snd r) c = Txt s \<longrightarrow>
                      P r = (\<exists>a b. lower s = a @ ?q @ b))
                \<and> (\<forall>r n. cell_at (columns (df v)) (snd r) c = Num n \<longrightarrow>
                      P r = (\<exists>a b. lower (column_num_text lib (df v) c n) = a @ ?q @ b)))"
    if "?q \<noteq> []" "\<not> list_ex is_meta ?q"
  proof -
    have f: "filtered_df (after_search lib v) = df v\<lparr>rows := filter ?P (rows (df v))\<rparr>"
      by (rule filtered_after_search) (rule visible_frame_active [OF assms that])
    have txt_case: "?P r = (\<exists>a b. lower s = a @ ?q @ b)"
      if "cell_at (columns (df v)) (snd r) c = Txt s" for r s
      using that by (simp add: str_contains_def column_text_def contains_str_iff)
    have num_case: "?P r = (\<exists>a b. lower (column_num_text lib (df v) c n) = a @ ?q @ b)"
      if "cell_at (columns (df v)) (snd r) c = Num n" for r n
      using that by (simp add: str_contains_def column_text_def contains_str_iff)
    have "rows (filtered_df (after_search lib v)) = filter ?P (rows (df v))"
      by (simp add: f)
    then have "\<exists>P. rows (filtered_df (after_search lib v)) = filter P (rows (df v))
                \<and> (\<forall>r s. cell_at (columns (df v)) (snd r) c = Txt s \<longrightarrow>
                      P r = (\<exists>a b. lower s = a @ ?q @ b))
                \<and> (\<forall>r n. cell_at (columns (df v)) (snd r) c = Num n \<longrightarrow>
                      P r = (\<exists>a b. lower (column_num_text lib (df v) c n) = a @ ?q @ b))"
      using txt_case num_case by blast
    then show ?thesis by (simp add: f)
  qed
  have raised: "on_search lib v = Inr (after_search lib v) \<or> on_search lib v = Inl TclError"
    if "?q = [] \<or> \<not> list_ex is_meta ?q"
  proof (cases "?q = []")
    case True
    then show ?thesis
      using on_search_or_heading [OF visible_frame_empty_query] by blast
  next
    case False
    then have "\<not> list_ex is_meta ?q" using that by blast
    then show ?thesis
      using on_search_or_heading [OF visible_frame_active [OF assms False]] by blast
  qed
  show ?thesis using empty lit raised by blast
qed

text \<open>
  C3 as stated fails: with the search text \<^verbatim>\<open>an\<close> followed by a space, the code searches
  for \<^verbatim>\<open>an\<close> and shows the row \<^verbatim>\<open>Plan\<close>, where the specification's filter, on the
  unstripped term, shows no row. The input has no missing cell and no number, so the rows
  shown do not depend on the library.
\<close>

theorem visible_rows_counterexample:
  "map_sum id (\<lambda>w. index (filtered_df w)) (on_search ex_library ex_search) = Inr [0]
   \<and> spec_computeVisible (df ex_search) (search_var ex_search) ''Task'' = []
   \<and> search_var ex_search = ''an ''
   \<and> rows (df ex_search) = [(0, [Txt ''Plan'']), (1, [Txt ''x''])]"
  by code_simp

lemma ex_search_facts:
  "active_column ex_search = Some ''Task''" "''Task'' \<noteq> []"
  "''Task'' \<in> set (columns (df ex_search))" "distinct (columns (df ex_search))"
  "strip (lower (search_var ex_search)) \<noteq> []"
  "\<not> list_ex is_meta (strip (lower (search_var ex_search)))"
  "strip (lower (search_var ex_search)) = ''an''"
  "rows (df ex_search) = [(0, [Txt ''Plan'']), (1, [Txt ''x''])]"
  "cell_at (columns (df ex_search)) (snd (0, [Txt ''Plan''])) ''Task'' = Txt ''Plan''"
  "cell_at (columns (df ex_search)) (snd (1, [Txt ''x''])) ''Task'' = Txt ''x''"
  "contains_str ''an'' (lower ''Plan'')" "\<not> contains_str ''an'' (lower ''x'')"
  by code_simp+

theorem visible_rows_active_column_witness:
  "active_column ex_search = Some ''Task'' \<and> ''Task'' \<noteq> []
   \<and> ''Task'' \<in> set (columns (df ex_search)) \<and> distinct (columns (df ex_search))
   \<and> strip (lower (search_var ex_search)) \<noteq> []
   \<and> \<not> list_ex is_meta (strip (lower (search_var ex_search)))
   \<and> rows (filtered_df (after_search ex_library ex_search)) = [(0, [Txt ''Plan''])]"
proof -
  note t = visible_rows_active_column [OF ex_search_facts(1) ex_search_facts(2)
      ex_search_facts(3) ex_search_facts(4), of ex_library]
  then obtain P where P: "rows (filtered_df (after_search ex_library ex_search))
        = filter P (rows (df ex_search))"
    "\<forall>r s. cell_at (columns (df ex_search)) (snd r) ''Task'' = Txt s \<longrightarrow>
        P r = (\<exists>a b. lower s = a @ strip (lower (search_var ex_search)) @ b)"
    using ex_search_facts(5,6) by blast
  have "P (0, [Txt ''Plan''])
          = (\<exists>a b. lower ''Plan'' = a @ strip (lower (search_var ex_search)) @ b)"
    using P(2) ex_search_facts(9) by blast
  then have "P (0, [Txt ''Plan'']) = contains_str ''an'' (lower ''Plan'')"
    by (simp only: ex_search_facts(7) contains_str_iff)
  then have p0: "P (0, [Txt ''Plan''])"
    using ex_search_facts(11) by blast
  have "P (1, [Txt ''x''])
          = (\<exists>a b. lower ''x'' = a @ strip (lower (search_var ex_search)) @ b)"
    using P(2) ex_search_facts(10) by blast
  then have "P (1, [Txt ''x'']) = contains_str ''an'' (lower ''x'')"
    by (simp only: ex_search_facts(7) contains_str_iff)
  then have p1: "\<not> P (1, [Txt ''x''])"
    using ex_search_facts(12) by blast
  have "rows (filtered_df (after_search ex_library ex_search)) = [(0, [Txt ''Plan''])]"
    using p0 p1 by (simp add: P(1) ex_search_facts(8))
  then show ?thesis using ex_search_facts(1-6) by blast
qed

subsection \<open>Display order\<close>

lemma stable_sort_stable:
  "filter (\<lambda>y. f y = k) (stable_sort asc f xs) = filter (\<lambda>y. f y = k) xs"
proof (cases asc)
  case True
  then show ?thesis by (simp add: stable_sort_def sort_key_stable)
next
  case False
  have "filter (\<lambda>y. f y = k) (rev (sort_key f (rev xs))) = rev (filter (\<lambda>y. f y = k) (sort_key f (rev xs)))"
    by (simp add: rev_filter)
  also have "\<dots> = rev (filter (\<lambda>y. f y = k) (rev xs))"
    by (simp only: sort_key_stable)
  also have "\<dots> = filter (\<lambda>y. f y = k) xs"
    by (simp add: rev_filter)
  finally show ?thesis using False by (simp add: stable_sort_def)
qed

lemma stable_sort_keeps_order:
  assumes "\<And>y. P y \<Longrightarrow> f y = k"
  shows "filter P (stable_sort asc f xs) = filter P xs"
proof -
  have split: "filter P ys = filter P (filter (\<lambda>y. f y = k) ys)" for ys
    using assms by (auto intro: filter_cong)
  have "filter P (stable_sort asc f xs) = filter P (filter (\<lambda>y. f y = k) (stable_sort asc f xs))"
    by (rule split)
  also have "\<dots> = filter P (filter (\<lambda>y. f y = k) xs)"
    by (simp only: stable_sort_stable)
  also have "\<dots> = filter P xs"
    by (rule split [symmetric])
  finally show ?thesis .
qed

lemma stable_sort_sorted:
  "(if asc then sorted (map f (stable_sort asc f xs)) else sorted (rev (map f (stable_sort asc f xs))))"
  by (simp add: stable_sort_def rev_map)

lemma stable_sort_Nil [simp]: "stable_sort asc f [] = []"
  by (simp add: stable_sort_def)

lemma sort_values_unique:
  assumes "c \<in> set (columns d)" and "distinct (columns d)"
  shows "sort_values d c asc =
     (let key = (\<lambda>r. cell_at (columns d) (snd r) c);
          nans = filter (\<lambda>r. key r = Missing) (rows d);
          vals = filter (\<lambda>r. key r \<noteq> Missing) (rows d)
      in if list_all (\<lambda>r. is_txt (key r)) vals
         then Inr (d\<lparr>rows := stable_sort asc (\<lambda>r. txt_of (key r)) vals @ nans\<rparr>)
         else if list_all (\<lambda>r. is_number (key r)) vals
         then Inr (d\<lparr>rows := stable_sort asc (\<lambda>r. number_of (key r)) vals @ nans\<rparr>)
         else Inl TypeError)"
  using assms distinct_count_le [OF assms(2), of c]
  by (simp add: sort_values_def isna_def)

lemma df_to_show_sorted:
  assumes "sort_col v = Some c" and "c \<noteq> []" and "c \<in> set (columns d)"
  shows "df_to_show v d = (case sort_values d c (sort_asc v) of Inr s \<Rightarrow> s | Inl e \<Rightarrow> d)"
  using assms by (simp add: df_to_show_def)

lemma set_stable_sort [simp]: "set (stable_sort asc f xs) = set xs"
  by (simp add: stable_sort_def)

lemma sorted_part:
  fixes g :: "cell \<Rightarrow> 'k::linorder"
  assumes xs_def: "xs = stable_sort asc (\<lambda>r. g (key r)) (filter (\<lambda>r. key r \<noteq> Missing) rs)"
  shows "k \<noteq> Missing \<Longrightarrow> filter (\<lambda>r. key r = k) xs = filter (\<lambda>r. key r = k) rs"
    and "list_all (\<lambda>r. key r \<noteq> Missing) xs"
    and "if asc then sorted (map (\<lambda>r. g (key r)) xs) else sorted (rev (map (\<lambda>r. g (key r)) xs))"
proof -
  show "filter (\<lambda>r. key r = k) xs = filter (\<lambda>r. key r = k) rs" if "k \<noteq> Missing"
  proof -
    have "filter (\<lambda>r. key r = k) xs = filter (\<lambda>r. key r = k) (filter (\<lambda>r. key r \<noteq> Missing) rs)"
      unfolding xs_def by (rule stable_sort_keeps_order [where k = "g k"]) simp
    also have "\<dots> = filter (\<lambda>r. key r = k) rs"
      using that by (auto intro: filter_cong)
    finally show ?thesis .
  qed
  show "list_all (\<lambda>r. key r \<noteq> Missing) xs"
    by (simp add: xs_def list_all_iff)
  show "if asc then sorted (map (\<lambda>r. g (key r)) xs) else sorted (rev (map (\<lambda>r. g (key r)) xs))"
    unfolding xs_def by (rule stable_sort_sorted)
qed

lemma sort_values_texts:
  assumes "c \<in> set (columns d)" and "distinct (columns d)"
    and "list_all (\<lambda>r. sort_cell d c r = Missing \<or> is_txt (sort_cell d c r)) (rows d)"
  shows "sort_values d c asc =
           Inr (d\<lparr>rows := stable_sort asc (\<lambda>r. txt_of (sort_cell d c r))
                              (filter (\<lambda>r. sort_cell d c r \<noteq> Missing) (rows d))
                          @ filter (\<lambda>r. sort_cell d c r = Missing) (rows d)\<rparr>)"
proof -
  have "list_all (\<lambda>r. is_txt (sort_cell d c r)) (filter (\<lambda>r. sort_cell d c r \<noteq> Missing) (rows d))"
    using assms(3) by (auto simp: list_all_iff)
  then show ?thesis
    by (simp add: sort_values_unique [OF assms(1,2)] Let_def sort_cell_def)
qed

lemma sort_values_nums:
  assumes "c \<in> set (columns d)" and "distinct (columns d)"
    and "list_all (\<lambda>r. sort_cell d c r = Missing \<or> is_number (sort_cell d c r)) (rows d)"
  shows "sort_values d c asc =
           Inr (d\<lparr>rows := stable_sort asc (\<lambda>r. number_of (sort_cell d c r))
                              (filter (\<lambda>r. sort_cell d c r \<noteq> Missing) (rows d))
                          @ filter (\<lambda>r. sort_cell d c r = Missing) (rows d)\<rparr>)"
proof -
  let ?vals = "filter (\<lambda>r. sort_cell d c r \<noteq> Missing) (rows d)"
  have nums: "list_all (\<lambda>r. is_number (sort_cell d c r)) ?vals"
    using assms(3) by (auto simp: list_all_iff)
  show ?thesis
  proof (cases "list_all (\<lambda>r. is_txt (sort_cell d c r)) ?vals")
    case True
    have "?vals = []"
    proof (rule ccontr)
      assume "?vals \<noteq> []"
      then obtain r where r: "r \<in> set ?vals" by (cases ?vals) auto
      then have "is_number (sort_cell d c r)" "is_txt (sort_cell d c r)"
        using nums True unfolding list_all_iff by blast+
      then show False by (cases "sort_cell d c r") auto
    qed
    then show ?thesis
      using True by (simp add: sort_values_unique [OF assms(1,2)] Let_def sort_cell_def)
  next
    case False
    then show ?thesis
      using nums by (simp add: sort_values_unique [OF assms(1,2)] Let_def sort_cell_def)
  qed
qed

lemma sort_values_mixed:
  assumes "c \<in> set (columns d)" and "distinct (columns d)"
    and "list_ex (\<lambda>r. is_txt (sort_cell d c r)) (rows d)"
    and "list_ex (\<lambda>r. is_number (sort_cell d c r)) (rows d)"
  shows "sort_values d c asc = Inl TypeError"
proof -
  let ?vals = "filter (\<lambda>r. sort_cell d c r \<noteq> Missing) (rows d)"
  obtain t where t: "t \<in> set (rows d)" "is_txt (sort_cell d c t)"
    using assms(3) by (auto simp: list_ex_iff)
  obtain n where n: "n \<in> set (rows d)" "is_number (sort_cell d c n)"
    using assms(4) by (auto simp: list_ex_iff)
  have "t \<in> set ?vals" "\<not> is_number (sort_cell d c t)"
    using t by (cases "sort_cell d c t"; simp)+
  then have a: "\<not> list_all (\<lambda>r. is_number (sort_cell d c r)) ?vals"
    unfolding list_all_iff by blast
  have "n \<in> set ?vals" "\<not> is_txt (sort_cell d c n)"
    using n by (cases "sort_cell d c n"; simp)+
  then have b: "\<not> list_all (\<lambda>r. is_txt (sort_cell d c r)) ?vals"
    unfolding list_all_iff by blast
  show ?thesis
    using a b by (simp add: sort_values_unique [OF assms(1,2)] Let_def sort_cell_def)
qed

text \<open>
  C2, as the code has it. With a sort column that is a column of the shown frame (unique
  labels), \<^verbatim>\<open>populate_tree\<close> orders the rows by the cells themselves, not by their texts:
  \<^item> when the present cells of the column are all texts, the rows with a present cell come
    first, stably sorted by the text (non-decreasing when ascending, non-increasing when
    descending), and the rows with a missing cell follow in their stored order, in both
    directions;
  \<^item> when they are all integers, the same holds with the order of the integers;
  \<^item> when the column holds a text and an integer, the sort raises, the handler catches it
    and the frame is shown in its stored order.
\<close>

theorem sort_by_native_value:
  assumes "sort_col v = Some c" and "c \<noteq> []" and "c \<in> set (columns d)"
    and "distinct (columns d)"
  shows "(list_all (\<lambda>r. sort_cell d c r = Missing \<or> is_txt (sort_cell d c r)) (rows d) \<longrightarrow>
            (\<exists>xs. rows (df_to_show v d) = xs @ filter (\<lambda>r. sort_cell d c r = Missing) (rows d)
               \<and> list_all (\<lambda>r. sort_cell d c r \<noteq> Missing) xs
               \<and> (\<forall>k. k \<noteq> Missing \<longrightarrow>
                     filter (\<lambda>r. sort_cell d c r = k) xs = filter (\<lambda>r. sort_cell d c r = k) (rows d))
               \<and> (if sort_asc v then sorted (map (\<lambda>r. txt_of (sort_cell d c r)) xs)
                   else sorted (rev (map (\<lambda>r. txt_of (sort_cell d c r)) xs)))))
       \<and> (list_all (\<lambda>r. sort_cell d c r = Missing \<or> is_number (sort_cell d c r)) (rows d) \<longrightarrow>
            (\<exists>xs. rows (df_to_show v d) = xs @ filter (\<lambda>r. sort_cell d c r = Missing) (rows d)
               \<and> list_all (\<lambda>r. sort_cell d c r \<noteq> Missing) xs
               \<and> (\<forall>k. k \<noteq> Missing \<longrightarrow>
                     filter (\<lambda>r. sort_cell d c r = k) xs = filter (\<lambda>r. sort_cell d c r = k) (rows d))
               \<and> (if sort_asc v then sorted (map (\<lambda>r. number_of (sort_cell d c r)) xs)
                   else sorted (rev (map (\<lambda>r. number_of (sort_cell d c r)) xs)))))
       \<and> (list_ex (\<lambda>r. is_txt (sort_cell d c r)) (rows d)
          \<and> list_ex (\<lambda>r. is_number (sort_cell d c r)) (rows d) \<longrightarrow> df_to_show v d = d)"
proof -
  note shown = df_to_show_sorted [OF assms(1,2,3)]
  have texts: "\<exists>xs. rows (df_to_show v d) = xs @ filter (\<lambda>r. sort_cell d c r = Missing) (rows d)
               \<and> list_all (\<lambda>r. sort_cell d c r \<noteq> Missing) xs
               \<and> (\<forall>k. k \<noteq> Missing \<longrightarrow>
                     filter (\<lambda>r. sort_cell d c r = k) xs = filter (\<lambda>r. sort_cell d c r = k) (rows d))
               \<and> (if sort_asc v then sorted (map (\<lambda>r. txt_of (sort_cell d c r)) xs)
                   else sorted (rev (map (\<lambda>r. txt_of (sort_cell d c r)) xs)))"
    if "list_all (\<lambda>r. sort_cell d c r = Missing \<or> is_txt (sort_cell d c r)) (rows d)"
  proof -
    let ?xs = "stable_sort (sort_asc v) (\<lambda>r. txt_of (sort_cell d c r))
                 (filter (\<lambda>r. sort_cell d c r \<noteq> Missing) (rows d))"
    have "rows (df_to_show v d) = ?xs @ filter (\<lambda>r. sort_cell d c r = Missing) (rows d)"
      by (simp add: shown sort_values_texts [OF assms(3,4) that])
    then show ?thesis
      using sorted_part [where key = "sort_cell d c" and g = txt_of and rs = "rows d"
          and asc = "sort_asc v", OF refl] by blast
  qed
  have nums: "\<exists>xs. rows (df_to_show v d) = xs @ filter (\<lambda>r. sort_cell d c r = Missing) (rows d)
               \<and> list_all (\<lambda>r. sort_cell d c r \<noteq> Missing) xs
               \<and> (\<forall>k. k \<noteq> Missing \<longrightarrow>
                     filter (\<lambda>r. sort_cell d c r = k) xs = filter (\<lambda>r. sort_cell d c r = k) (rows d))
               \<and> (if sort_asc v then sorted (map (\<lambda>r. number_of (sort_cell d c r)) xs)
                   else sorted (rev (map (\<lambda>r. number_of (sort_cell d c r)) xs)))"
    if "list_all (\<lambda>r. sort_cell d c r = Missing \<or> is_number (sort_cell d c r)) (rows d)"
  proof -
    let ?xs = "stable_sort (sort_asc v) (\<lambda>r. number_of (sort_cell d c r))
                 (filter (\<lambda>r. sort_cell d c r \<noteq> Missing) (rows d))"
    have "rows (df_to_show v d) = ?xs @ filter (\<lambda>r. sort_cell d c r = Missing) (rows d)"
      by (simp add: shown sort_values_nums [OF assms(3,4) that])
    then show ?thesis
      using sorted_part [where key = "sort_cell d c" and g = number_of and rs = "rows d"
          and asc = "sort_asc v", OF refl] by blast
  qed
  have mixed: "df_to_show v d = d"
    if "list_ex (\<lambda>r. is_txt (sort_cell d c r)) (rows d)
        \<and> list_ex (\<lambda>r. is_number (sort_cell d c r)) (rows d)"
    using that by (simp add: shown sort_values_mixed [OF assms(3,4)])
  show ?thesis using texts nums mixed by blast
qed

text \<open>
  C2 as stated fails. Ascending on the cells (missing, b, a) the code shows the rows 2, 1, 0:
  the missing cell comes last, where the comparison as the empty text puts it first (0, 2,
  1). Ascending on the integers (10, 9) the code shows 9 before 10, where the comparison of
  the texts \<^verbatim>\<open>10\<close> and \<^verbatim>\<open>9\<close> keeps 10 first.
\<close>

theorem sort_order_counterexample:
  "index (df_to_show ex_sort (filtered_df ex_sort)) = [2, 1, 0]
   \<and> map fst (tree (populate_tree ex_library ex_sort (filtered_df ex_sort))) = [''2'', ''1'', ''0'']
   \<and> spec_computeOrder (filtered_df ex_sort) ''Due'' True = [0, 2, 1]
   \<and> rows (filtered_df ex_sort) = [(0, [Missing]), (1, [Txt ''b'']), (2, [Txt ''a''])]
   \<and> index (df_to_show ex_sort_num (filtered_df ex_sort_num)) = [1, 0]
   \<and> spec_computeOrder (filtered_df ex_sort_num) ''Hours'' True = [0, 1]
   \<and> rows (filtered_df ex_sort_num) = [(0, [Num 10]), (1, [Num 9])]"
  by code_simp

lemma ex_sort_facts:
  "sort_col ex_sort = Some ''Due''" "''Due'' \<noteq> []"
  "''Due'' \<in> set (columns (filtered_df ex_sort))" "distinct (columns (filtered_df ex_sort))"
  "list_all (\<lambda>r. sort_cell (filtered_df ex_sort) ''Due'' r = Missing
                 \<or> is_txt (sort_cell (filtered_df ex_sort) ''Due'' r)) (rows (filtered_df ex_sort))"
  "filter (\<lambda>r. sort_cell (filtered_df ex_sort) ''Due'' r = Missing) (rows (filtered_df ex_sort))
     = [(0, [Missing])]"
  "sort_asc ex_sort"
  by code_simp+

lemma ex_sort_num_facts:
  "sort_col ex_sort_num = Some ''Hours''" "''Hours'' \<noteq> []"
  "''Hours'' \<in> set (columns (filtered_df ex_sort_num))" "distinct (columns (filtered_df ex_sort_num))"
  "list_all (\<lambda>r. sort_cell (filtered_df ex_sort_num) ''Hours'' r = Missing
                 \<or> is_number (sort_cell (filtered_df ex_sort_num) ''Hours'' r)) (rows (filtered_df ex_sort_num))"
  "filter (\<lambda>r. sort_cell (filtered_df ex_sort_num) ''Hours'' r = Missing) (rows (filtered_df ex_sort_num))
     = []"
  "sort_asc ex_sort_num"
  by code_simp+

lemma ex_sort_mixed_facts:
  "sort_col ex_sort_mixed = Some ''Ref''" "''Ref'' \<noteq> []"
  "''Ref'' \<in> set (columns (filtered_df ex_sort_mixed))" "distinct (columns (filtered_df ex_sort_mixed))"
  "list_ex (\<lambda>r. is_txt (sort_cell (filtered_df ex_sort_mixed) ''Ref'' r)) (rows (filtered_df ex_sort_mixed))"
  "list_ex (\<lambda>r. is_number (sort_cell (filtered_df ex_sort_mixed) ''Ref'' r)) (rows (filtered_df ex_sort_mixed))"
  by code_simp+

theorem sort_by_native_value_witness:
  "sort_col ex_sort = Some ''Due'' \<and> ''Due'' \<noteq> []
   \<and> ''Due'' \<in> set (columns (filtered_df ex_sort)) \<and> distinct (columns (filtered_df ex_sort))
   \<and> list_all (\<lambda>r. sort_cell (filtered_df ex_sort) ''Due'' r = Missing
                 \<or> is_txt (sort_cell (filtered_df ex_sort) ''Due'' r)) (rows (filtered_df ex_sort))
   \<and> (\<exists>xs. rows (df_to_show ex_sort (filtered_df ex_sort)) = xs @ [(0, [Missing])]
          \<and> sorted (map (\<lambda>r. txt_of (sort_cell (filtered_df ex_sort) ''Due'' r)) xs))
   \<and> sort_col ex_sort_num = Some ''Hours'' \<and> ''Hours'' \<noteq> []
   \<and> ''Hours'' \<in> set (columns (filtered_df ex_sort_num))
   \<and> distinct (columns (filtered_df ex_sort_num))
   \<and> list_all (\<lambda>r. sort_cell (filtered_df ex_sort_num) ''Hours'' r = Missing
                 \<or> is_number (sort_cell (filtered_df ex_sort_num) ''Hours'' r))
         (rows (filtered_df ex_sort_num))
   \<and> (\<exists>xs. rows (df_to_show ex_sort_num (filtered_df ex_sort_num)) = xs
          \<and> sorted (map (\<lambda>r. number_of (sort_cell (filtered_df ex_sort_num) ''Hours'' r)) xs))
   \<and> sort_col ex_sort_mixed = Some ''Ref'' \<and> ''Ref'' \<noteq> []
   \<and> ''Ref'' \<in> set (columns (filtered_df ex_sort_mixed))
   \<and> distinct (columns (filtered_df ex_sort_mixed))
   \<and> list_ex (\<lambda>r. is_txt (sort_cell (filtered_df ex_sort_mixed) ''Ref'' r))
         (rows (filtered_df ex_sort_mixed))
   \<and> list_ex (\<lambda>r. is_number (sort_cell (filtered_df ex_sort_mixed) ''Ref'' r))
         (rows (filtered_df ex_sort_mixed))
   \<and> df_to_show ex_sort_mixed (filtered_df ex_sort_mixed) = filtered_df ex_sort_mixed"
proof -
  note t = sort_by_native_value [OF ex_sort_facts(1) ex_sort_facts(2) ex_sort_facts(3)
      ex_sort_facts(4)]
  note n = sort_by_native_value [OF ex_sort_num_facts(1) ex_sort_num_facts(2)
      ex_sort_num_facts(3) ex_sort_num_facts(4)]
  note m = sort_by_native_value [OF ex_sort_mixed_facts(1) ex_sort_mixed_facts(2)
      ex_sort_mixed_facts(3) ex_sort_mixed_facts(4)]
  have "\<exists>xs. rows (df_to_show ex_sort (filtered_df ex_sort))
            = xs @ filter (\<lambda>r. sort_cell (filtered_df ex_sort) ''Due'' r = Missing)
                     (rows (filtered_df ex_sort))
          \<and> (if sort_asc ex_sort
              then sorted (map (\<lambda>r. txt_of (sort_cell (filtered_df ex_sort) ''Due'' r)) xs)
              else sorted (rev (map (\<lambda>r. txt_of (sort_cell (filtered_df ex_sort) ''Due'' r)) xs)))"
    using t ex_sort_facts(5) by blast
  then have a: "\<exists>xs. rows (df_to_show ex_sort (filtered_df ex_sort)) = xs @ [(0, [Missing])]
          \<and> sorted (map (\<lambda>r. txt_of (sort_cell (filtered_df ex_sort) ''Due'' r)) xs)"
    by (simp add: ex_sort_facts(6,7))
  have "\<exists>xs. rows (df_to_show ex_sort_num (filtered_df ex_sort_num))
            = xs @ filter (\<lambda>r. sort_cell (filtered_df ex_sort_num) ''Hours'' r = Missing)
                     (rows (filtered_df ex_sort_num))
          \<and> (if sort_asc ex_sort_num
              then sorted (map (\<lambda>r. number_of (sort_cell (filtered_df ex_sort_num) ''Hours'' r)) xs)
              else sorted (rev (map (\<lambda>r. number_of (sort_cell (filtered_df ex_sort_num) ''Hours'' r)) xs)))"
    using n ex_sort_num_facts(5) by blast
  then have b: "\<exists>xs. rows (df_to_show ex_sort_num (filtered_df ex_sort_num)) = xs
          \<and> sorted (map (\<lambda>r. number_of (sort_cell (filtered_df ex_sort_num) ''Hours'' r)) xs)"
    by (simp add: ex_sort_num_facts(6,7))
  have c: "df_to_show ex_sort_mixed (filtered_df ex_sort_mixed) = filtered_df ex_sort_mixed"
    using m ex_sort_mixed_facts(5,6) by blast
  show ?thesis
    using ex_sort_facts(1-5) ex_sort_num_facts(1-5) ex_sort_mixed_facts a b c by blast
qed

subsection \<open>Restoring a session\<close>

lemma df_new_viewer [simp]: "df (new_viewer lib d n s) = d"
  by (simp add: new_viewer_def)

lemma load_sources_frames:
  "map df (viewers (load_sources lib load_excel basename a sources)) =
     map df (viewers a) @ (case loaded_frames load_excel sources of [] \<Rightarrow> [] | d # ds \<Rightarrow> [d])"
proof (induction sources)
  case Nil
  show ?case by (simp add: loaded_frames_def map_filter_simps)
next
  case (Cons s sources)
  show ?case
  proof (cases "load_excel s")
    case (Inl e)
    then show ?thesis using Cons by (simp add: loaded_frames_def map_filter_simps)
  next
    case (Inr d)
    then show ?thesis by (simp add: loaded_frames_def map_filter_simps open_new_viewer_def)
  qed
qed

text \<open>
  C1, as the code has it. \<^verbatim>\<open>load_session\<close> opens, for every entry of the session in order, one
  viewer on the frame of the first listed source that loads, and on that frame alone: the
  sources listed after it are not loaded and nothing is merged. A source that fails to load
  is skipped and the next one is tried; an entry none of whose sources loads opens no
  viewer, and the entries after it are restored all the same.
\<close>

theorem load_session_first_loadable:
  "map df (viewers (load_session lib load_excel basename a session)) =
     map df (viewers a) @
     List.map_filter (\<lambda>item. case loaded_frames load_excel (snd item) of
                               [] \<Rightarrow> None | d # ds \<Rightarrow> Some d) session"
proof (induction session arbitrary: a)
  case Nil
  show ?case by (simp add: map_filter_simps)
next
  case (Cons item session)
  show ?case
    by (simp add: Cons load_sources_frames map_filter_simps split: list.splits)
qed

lemma ex_session_facts:
  "List.map_filter (\<lambda>item. case loaded_frames ex_loader (snd item) of
                               [] \<Rightarrow> None | d # ds \<Rightarrow> Some d) ex_session = [ex_base]"
  "map df (viewers \<lparr>viewers = []\<rparr>) = []"
  by code_simp+

theorem load_session_first_loadable_witness:
  "map df (viewers (load_session ex_library ex_loader (\<lambda>s. s) \<lparr>viewers = []\<rparr> ex_session)) = [ex_base]"
  using load_session_first_loadable [of ex_library ex_loader "\<lambda>s. s" "\<lparr>viewers = []\<rparr>" ex_session]
  by (simp only: ex_session_facts append_Nil)

text \<open>
  C1 as stated fails: for the entry listing \<^verbatim>\<open>moved.xlsx\<close> (which fails), \<^verbatim>\<open>plan.xlsx\<close> and
  \<^verbatim>\<open>team.xlsx\<close>, the code restores the two rows and two columns of \<^verbatim>\<open>plan.xlsx\<close>, where the
  specification's restore merges \<^verbatim>\<open>team.xlsx\<close> into them: three rows, three columns.
\<close>

theorem load_session_counterexample:
  "map df (viewers (load_session ex_library ex_loader (\<lambda>s. s) \<lparr>viewers = []\<rparr> ex_session))
     = [\<lparr>columns = [''Task'', ''Due''],
         rows = [(0, [Txt ''write'', Txt ''mon'']), (1, [Txt ''test'', Missing])]\<rparr>]
   \<and> spec_restore ex_loader ex_session
     = [\<lparr>columns = [''Task'', ''Due'', ''Owner''],
         rows = [(0, [Txt ''write'', Txt ''mon'', Txt []]),
                 (1, [Txt ''test'', Missing, Txt []]),
                 (2, [Txt [], Txt ''tue'', Txt ''ann''])]\<rparr>]"
  by code_simp

end
